theory Spec2Isabelle
  imports Main
begin

section \<open>Data model of \<open>src/app/page.tsx\<close>\<close>

text \<open>
  The page component drives a scripted story: a fixed list of segments is revealed by
  timers while Web Audio nodes are created for an ambient bed and for one-shot effects.
  The embedding keeps the component's React state and refs as fields of one record and adds
  the parts of the browser the code talks to: the window's map of active timers, the audio
  node graph, and a millisecond clock.  React state setters are modelled as assignments.

  The component's timeline is the constant \<open>STORY_SEGMENTS\<close>; the functions below take the
  timeline as a parameter \<open>segs\<close>, so that statements about every timeline can be made.

  The field \<open>event_log\<close> is an observer added to the state: it records, in the order of the
  calls and with the clock value, each reveal of a segment, each effect that is played and
  the transition to \<open>finished\<close>.  No function of the component reads it.

  Not modelled: the \<open>text\<close> field of a segment and the JSX (read by the renderer only),
  the values written to audio parameters and noise buffers (floating point and
  \<open>Math.random\<close>; no branch of the code reads them), and the \<open>onended\<close> events of the
  audio clock.

  \<open>startExperience\<close>, \<open>stopExperience\<close> and the unmount cleanup are first given as
  whole calls, in which nothing else runs while the call awaits the audio backend, and the
  relation \<open>reachable\<close> composes such calls.  The last section of the model splits the
  handlers at their \<open>await\<close>s and lets them interleave.
\<close>

datatype StoryEffect = Heartbeat | Creak | Whisper | Gust | Chime

record StorySegment =
  segment_id :: string
  duration :: nat
  effects :: "StoryEffect list option"

definition STORY_SEGMENTS :: "StorySegment list" where
  "STORY_SEGMENTS =
    [\<lparr>segment_id = ''segment-1'', duration = 7500, effects = Some [Heartbeat]\<rparr>,
     \<lparr>segment_id = ''segment-2'', duration = 7000, effects = Some [Whisper]\<rparr>,
     \<lparr>segment_id = ''segment-3'', duration = 8000, effects = Some [Gust]\<rparr>,
     \<lparr>segment_id = ''segment-4'', duration = 7500, effects = Some [Whisper, Heartbeat]\<rparr>,
     \<lparr>segment_id = ''segment-5'', duration = 8000, effects = Some [Creak]\<rparr>,
     \<lparr>segment_id = ''segment-6'', duration = 7500, effects = Some [Heartbeat]\<rparr>,
     \<lparr>segment_id = ''segment-7'', duration = 7500, effects = Some [Chime]\<rparr>,
     \<lparr>segment_id = ''segment-8'', duration = 8200, effects = Some [Creak, Whisper]\<rparr>]"

text \<open>\<open>TOTAL_DURATION = STORY_SEGMENTS.reduce((sum, segment) => sum + segment.duration, 0)\<close>,
  with the timeline as a parameter.\<close>

definition TOTAL_DURATION :: "StorySegment list \<Rightarrow> nat" where
  "TOTAL_DURATION segs = fold (\<lambda>segment sum. sum + duration segment) segs 0"

datatype Status = Idle | Playing | Finished

datatype error =
    ServerError                 \<comment> \<open>"AudioContext unavailable on the server"\<close>
  | UnsupportedBackend          \<comment> \<open>"Web Audio API is not supported in this browser."\<close>
  | BackendAcquisitionFailed    \<comment> \<open>\<open>resume()\<close> rejected\<close>
  | TypeError                   \<comment> \<open>a property of \<open>undefined\<close>/\<open>null\<close> was used\<close>
  | InvalidStateError           \<comment> \<open>\<open>stop()\<close> on a node that cannot be stopped\<close>

subsection \<open>The audio node graph\<close>

datatype node_kind = OscillatorNode | GainNode | AudioBufferSourceNode | BiquadFilterNode

datatype play_state = Unstarted | Started | StopCalled

datatype target = ToNode nat | ToParam nat | ToDestination

record audio_node =
  kind :: node_kind
  play :: play_state
  outputs :: "target list"
  onended :: "nat option"   \<comment> \<open>the gain node the \<open>onended\<close> handler disconnects\<close>

record audio_graph =
  nodes :: "nat \<Rightarrow> audio_node"
  node_count :: nat
  buffer_count :: nat

datatype AudioContextState = running | suspended | closed

record AmbientNodes =
  oscillators :: "nat list"
  tremolo :: "nat option"
  noise :: "nat option"

subsection \<open>Timers, events and the page state\<close>

datatype callback =
    RevealCb StorySegment nat   \<comment> \<open>the closure of line 454: captured \<open>segment\<close> and \<open>index\<close>\<close>
  | FinalCb                     \<comment> \<open>the closure of line 459\<close>

datatype event = EvReveal string | EvEffect StoryEffect | EvFinished

record page =
  visibleSegments :: "string list"
  activeSegment :: "string option"
  status :: Status
  elapsed :: nat
  audioContextRef :: "AudioContextState option"
  masterGainRef :: "nat option"
  ambientRef :: "AmbientNodes option"
  scheduleTimeoutsRef :: "nat list"
  timerIntervalRef :: "nat option"
  timeouts :: "(nat \<times> nat \<times> callback) list"  \<comment> \<open>handle, due time, callback\<close>
  intervals :: "(nat \<times> nat) list"               \<comment> \<open>handle, captured \<open>startTime\<close>\<close>
  next_handle :: nat
  graph :: audio_graph
  now :: nat
  event_log :: "(nat \<times> event) list"

text \<open>What the browser offers; fixed for one page.\<close>

record browser =
  has_window :: bool
  has_AudioContext :: bool
  has_webkitAudioContext :: bool
  resume_rejects :: bool
  stop_twice_throws :: bool

definition empty_node :: audio_node where
  "empty_node = \<lparr>kind = GainNode, play = Unstarted, outputs = [], onended = None\<rparr>"

definition initial_page :: page where
  "initial_page =
    \<lparr>visibleSegments = [], activeSegment = None, status = Idle, elapsed = 0,
     audioContextRef = None, masterGainRef = None, ambientRef = None,
     scheduleTimeoutsRef = [], timerIntervalRef = None,
     timeouts = [], intervals = [], next_handle = 1,
     graph = \<lparr>nodes = (\<lambda>_. empty_node), node_count = 0, buffer_count = 0\<rparr>,
     now = 0, event_log = []\<rparr>"

section \<open>Browser primitives\<close>

text \<open>Timer handles are positive integers drawn from one counter; \<open>clearTimeout\<close> and
  \<open>clearInterval\<close> both remove the handle from the one map of active timers.\<close>

definition setTimeout :: "callback \<Rightarrow> nat \<Rightarrow> page \<Rightarrow> nat \<times> page" where
  "setTimeout cb delay s =
    (next_handle s,
     s\<lparr>timeouts := timeouts s @ [(next_handle s, now s + delay, cb)],
       next_handle := Suc (next_handle s)\<rparr>)"

definition setInterval :: "nat \<Rightarrow> page \<Rightarrow> nat \<times> page" where
  "setInterval startTime s =
    (next_handle s,
     s\<lparr>intervals := intervals s @ [(next_handle s, startTime)],
       next_handle := Suc (next_handle s)\<rparr>)"

definition clearTimer :: "nat \<Rightarrow> page \<Rightarrow> page" where
  "clearTimer handle s =
    s\<lparr>timeouts := filter (\<lambda>t. fst t \<noteq> handle) (timeouts s),
      intervals := filter (\<lambda>t. fst t \<noteq> handle) (intervals s)\<rparr>"

definition clearTimeout :: "nat \<Rightarrow> page \<Rightarrow> page" where
  "clearTimeout handle s = clearTimer handle s"

definition clearInterval :: "nat \<Rightarrow> page \<Rightarrow> page" where
  "clearInterval handle s = clearTimer handle s"

definition createNode :: "node_kind \<Rightarrow> audio_graph \<Rightarrow> nat \<times> audio_graph" where
  "createNode k g =
    (node_count g,
     g\<lparr>nodes := (nodes g)(node_count g := \<lparr>kind = k, play = Unstarted, outputs = [], onended = None\<rparr>),
       node_count := Suc (node_count g)\<rparr>)"

definition createBuffer :: "audio_graph \<Rightarrow> audio_graph" where
  "createBuffer g = g\<lparr>buffer_count := Suc (buffer_count g)\<rparr>"

definition connect :: "nat \<Rightarrow> target \<Rightarrow> audio_graph \<Rightarrow> audio_graph" where
  "connect n t g = g\<lparr>nodes := (nodes g)(n := (nodes g n)\<lparr>outputs := outputs (nodes g n) @ [t]\<rparr>)\<rparr>"

definition disconnect :: "nat \<Rightarrow> audio_graph \<Rightarrow> audio_graph" where
  "disconnect n g = g\<lparr>nodes := (nodes g)(n := (nodes g n)\<lparr>outputs := []\<rparr>)\<rparr>"

text \<open>\<open>start()\<close> is only ever called on a node created a few lines before.\<close>

definition node_start :: "nat \<Rightarrow> audio_graph \<Rightarrow> audio_graph" where
  "node_start n g = g\<lparr>nodes := (nodes g)(n := (nodes g n)\<lparr>play := Started\<rparr>)\<rparr>"

text \<open>\<open>stop()\<close> throws on a node that was never started and, in some browsers, on a node
  that was stopped before.\<close>

definition node_stop :: "browser \<Rightarrow> nat \<Rightarrow> audio_graph \<Rightarrow> error + audio_graph" where
  "node_stop env n g =
    (case play (nodes g n) of
       Unstarted \<Rightarrow> Inl InvalidStateError
     | Started \<Rightarrow> Inr (g\<lparr>nodes := (nodes g)(n := (nodes g n)\<lparr>play := StopCalled\<rparr>)\<rparr>)
     | StopCalled \<Rightarrow> if stop_twice_throws env then Inl InvalidStateError else Inr g)"

text \<open>\<open>osc.stop(context.currentTime + d)\<close> right after \<open>osc.start\<close>, and the \<open>onended\<close>
  assignment, in the one-shot voices.\<close>

definition stop_later :: "nat \<Rightarrow> audio_graph \<Rightarrow> audio_graph" where
  "stop_later n g = g\<lparr>nodes := (nodes g)(n := (nodes g n)\<lparr>play := StopCalled\<rparr>)\<rparr>"

definition set_onended :: "nat \<Rightarrow> nat \<Rightarrow> audio_graph \<Rightarrow> audio_graph" where
  "set_onended n gain g = g\<lparr>nodes := (nodes g)(n := (nodes g n)\<lparr>onended := Some gain\<rparr>)\<rparr>"

section \<open>The component's functions\<close>

subsection \<open>\<open>clearSchedule\<close> (lines 93-100)\<close>

definition clearSchedule :: "page \<Rightarrow> page" where
  "clearSchedule s =
    (let s = fold clearTimeout (scheduleTimeoutsRef s) s;
         s = s\<lparr>scheduleTimeoutsRef := []\<rparr>
     in case timerIntervalRef s of
          None \<Rightarrow> s
        | Some handle \<Rightarrow>
            if handle \<noteq> 0 then (clearInterval handle s)\<lparr>timerIntervalRef := None\<rparr> else s)"

subsection \<open>\<open>stopAmbient\<close> (lines 102-134)\<close>

text \<open>\<open>try { node.stop() } catch (error) { }\<close> followed by \<open>node.disconnect()\<close>.\<close>

definition stop_and_disconnect :: "browser \<Rightarrow> nat \<Rightarrow> audio_graph \<Rightarrow> audio_graph" where
  "stop_and_disconnect env n g =
    (let g = (case node_stop env n g of Inl error \<Rightarrow> g | Inr g' \<Rightarrow> g')
     in disconnect n g)"

definition stopAmbient :: "browser \<Rightarrow> page \<Rightarrow> page" where
  "stopAmbient env s =
    (case ambientRef s of
       None \<Rightarrow> s
     | Some ns \<Rightarrow>
        (let g = fold (stop_and_disconnect env) (oscillators ns) (graph s);
             g = (case tremolo ns of None \<Rightarrow> g | Some t \<Rightarrow> stop_and_disconnect env t g);
             g = (case noise ns of None \<Rightarrow> g | Some n \<Rightarrow> stop_and_disconnect env n g)
         in s\<lparr>graph := g, ambientRef := None\<rparr>))"

subsection \<open>\<open>teardownAudio\<close> (lines 136-156)\<close>

text \<open>\<open>context.close()\<close> sits in a \<open>try\<close> whose \<open>catch\<close> is empty, and the ref is set to
  null after it whether or not it throws.\<close>

definition teardownAudio :: "browser \<Rightarrow> page \<Rightarrow> page" where
  "teardownAudio env s =
    (let s = stopAmbient env s;
         s = (case masterGainRef s of
                None \<Rightarrow> s
              | Some masterGain \<Rightarrow> s\<lparr>graph := disconnect masterGain (graph s), masterGainRef := None\<rparr>)
     in case audioContextRef s of
          None \<Rightarrow> s
        | Some context \<Rightarrow> s\<lparr>audioContextRef := None\<rparr>)"

subsection \<open>\<open>ensureAudioContext\<close> (lines 158-185)\<close>

text \<open>The result is the promise's outcome: the error it rejects with, or the pair
  \<open>{context, master}\<close>; \<open>master\<close> is read from the ref with a non-null assertion that
  exists only at compile time, so it may be null.  A context made in a click handler is
  running.\<close>

definition ensureAudioContext ::
  "browser \<Rightarrow> page \<Rightarrow> (error + AudioContextState \<times> nat option) \<times> page" where
  "ensureAudioContext env s =
    (if \<not> has_window env then (Inl ServerError, s)
     else case audioContextRef s of
       None \<Rightarrow>
         if \<not> (has_AudioContext env \<or> has_webkitAudioContext env) then (Inl UnsupportedBackend, s)
         else
           (let (masterGain, g) = createNode GainNode (graph s);
                g = connect masterGain ToDestination g;
                s = s\<lparr>graph := g, audioContextRef := Some running, masterGainRef := Some masterGain\<rparr>
            in (Inr (running, masterGainRef s), s))
     | Some context \<Rightarrow>
         if context = suspended then
           (if resume_rejects env then (Inl BackendAcquisitionFailed, s)
            else (let s = s\<lparr>audioContextRef := Some running\<rparr> in (Inr (running, masterGainRef s), s)))
         else (Inr (context, masterGainRef s), s))"

subsection \<open>\<open>beginAmbientBed\<close> (lines 187-245)\<close>

text \<open>With a null \<open>masterGain\<close> the first \<open>connect(masterGain)\<close> throws a TypeError,
  after the bass oscillator and its gain were created.\<close>

definition beginAmbientBed :: "nat option \<Rightarrow> page \<Rightarrow> error option \<times> page" where
  "beginAmbientBed masterGain s =
    (case ambientRef s of
       Some ns \<Rightarrow> (None, s)
     | None \<Rightarrow>
        (let g = graph s;
             (bassOsc, g) = createNode OscillatorNode g;
             (bassGain, g) = createNode GainNode g;
             g = connect bassOsc (ToNode bassGain) g
         in case masterGain of
              None \<Rightarrow> (Some TypeError, s\<lparr>graph := g\<rparr>)
            | Some master \<Rightarrow>
               (let g = connect bassGain (ToNode master) g;
                    g = node_start bassOsc g;
                    oscs = [bassOsc];
                    (highOsc, g) = createNode OscillatorNode g;
                    (highGain, g) = createNode GainNode g;
                    g = connect highOsc (ToNode highGain) g;
                    g = connect highGain (ToNode master) g;
                    g = node_start highOsc g;
                    oscs = oscs @ [highOsc];
                    (trem, g) = createNode OscillatorNode g;
                    (tremoloDepth, g) = createNode GainNode g;
                    g = connect trem (ToNode tremoloDepth) g;
                    g = connect tremoloDepth (ToParam bassGain) g;
                    g = node_start trem g;
                    g = createBuffer g;
                    (noise_src, g) = createNode AudioBufferSourceNode g;
                    (noiseFilter, g) = createNode BiquadFilterNode g;
                    (noiseGain, g) = createNode GainNode g;
                    g = connect noise_src (ToNode noiseFilter) g;
                    g = connect noiseFilter (ToNode noiseGain) g;
                    g = connect noiseGain (ToNode master) g;
                    g = node_start noise_src g
                in (None, s\<lparr>graph := g,
                             ambientRef := Some \<lparr>oscillators = oscs, tremolo = Some trem,
                                                 noise = Some noise_src\<rparr>\<rparr>))))"

subsection \<open>The one-shot voices (lines 247-391)\<close>

definition playHeartbeat :: "nat \<Rightarrow> audio_graph \<Rightarrow> audio_graph" where
  "playHeartbeat destination g =
    (let (gain, g) = createNode GainNode g;
         g = connect gain (ToNode destination) g;
         (osc, g) = createNode OscillatorNode g;
         g = connect osc (ToNode gain) g;
         g = node_start osc g;
         g = stop_later osc g
     in set_onended osc gain g)"

definition playCreak :: "nat \<Rightarrow> audio_graph \<Rightarrow> audio_graph" where
  "playCreak destination g =
    (let (osc, g) = createNode OscillatorNode g;
         (gain, g) = createNode GainNode g;
         (filter_node, g) = createNode BiquadFilterNode g;
         g = connect osc (ToNode filter_node) g;
         g = connect filter_node (ToNode gain) g;
         g = connect gain (ToNode destination) g;
         g = node_start osc g;
         g = stop_later osc g
     in set_onended osc gain g)"

definition playWhisper :: "nat \<Rightarrow> audio_graph \<Rightarrow> audio_graph" where
  "playWhisper destination g =
    (let g = createBuffer g;
         (source, g) = createNode AudioBufferSourceNode g;
         (filter_node, g) = createNode BiquadFilterNode g;
         (gain, g) = createNode GainNode g;
         g = connect source (ToNode filter_node) g;
         g = connect filter_node (ToNode gain) g;
         g = connect gain (ToNode destination) g;
         g = node_start source g;
         g = stop_later source g
     in set_onended source gain g)"

definition playGust :: "nat \<Rightarrow> audio_graph \<Rightarrow> audio_graph" where
  "playGust destination g =
    (let g = createBuffer g;
         (source, g) = createNode AudioBufferSourceNode g;
         (filter_node, g) = createNode BiquadFilterNode g;
         (gain, g) = createNode GainNode g;
         g = connect source (ToNode filter_node) g;
         g = connect filter_node (ToNode gain) g;
         g = connect gain (ToNode destination) g;
         g = node_start source g;
         g = stop_later source g
     in set_onended source gain g)"

definition chime_voice :: "nat \<Rightarrow> nat \<Rightarrow> audio_graph \<Rightarrow> audio_graph" where
  "chime_voice destination freq g =
    (let (osc, g) = createNode OscillatorNode g;
         (gain, g) = createNode GainNode g;
         g = connect osc (ToNode gain) g;
         g = connect gain (ToNode destination) g;
         g = node_start osc g;
         g = stop_later osc g
     in set_onended osc gain g)"

definition playChime :: "nat \<Rightarrow> audio_graph \<Rightarrow> audio_graph" where
  "playChime destination g = fold (chime_voice destination) [660, 880, 1320] g"

subsection \<open>\<open>triggerEffects\<close> (lines 393-423)\<close>

fun play_effect :: "nat \<Rightarrow> StoryEffect \<Rightarrow> audio_graph \<Rightarrow> audio_graph" where
  "play_effect master Heartbeat g = playHeartbeat master g"
| "play_effect master Creak g = playCreak master g"
| "play_effect master Whisper g = playWhisper master g"
| "play_effect master Gust g = playGust master g"
| "play_effect master Chime g = playChime master g"

definition triggerEffects :: "StoryEffect list option \<Rightarrow> page \<Rightarrow> page" where
  "triggerEffects fx s =
    (case fx of
       None \<Rightarrow> s
     | Some effs \<Rightarrow>
        if length effs = 0 then s
        else
          (case audioContextRef s of
             None \<Rightarrow> s
           | Some context \<Rightarrow>
              (case masterGainRef s of
                 None \<Rightarrow> s
               | Some master \<Rightarrow>
                   fold (\<lambda>effect s. s\<lparr>graph := play_effect master effect (graph s),
                                       event_log := event_log s @ [(now s, EvEffect effect)]\<rparr>)
                        effs s)))"

subsection \<open>\<open>startTimer\<close> (lines 425-433) and the ticker's callback\<close>

definition startTimer :: "page \<Rightarrow> page" where
  "startTimer s =
    (let startTime = now s;
         s = s\<lparr>elapsed := 0\<rparr>;
         (handle, s) = setInterval startTime s
     in s\<lparr>timerIntervalRef := Some handle\<rparr>)"

definition tick :: "StorySegment list \<Rightarrow> nat \<Rightarrow> page \<Rightarrow> page" where
  "tick segs startTime s =
    (let delta = now s - startTime in s\<lparr>elapsed := min delta (TOTAL_DURATION segs)\<rparr>)"

subsection \<open>The deferred callbacks of \<open>startExperience\<close> (lines 454-469)\<close>

text \<open>\<open>Array.from(new Set([...prev, id]))\<close>: the elements in the order in which they
  are first inserted.\<close>

definition Set_from :: "'a list \<Rightarrow> 'a list" where
  "Set_from xs = fold (\<lambda>x acc. if x \<in> set acc then acc else acc @ [x]) xs []"

fun run_callback :: "StorySegment list \<Rightarrow> callback \<Rightarrow> page \<Rightarrow> page" where
  "run_callback segs (RevealCb segment index) s =
    (let s = s\<lparr>visibleSegments := Set_from (visibleSegments s @ [segment_id segment]),
               event_log := event_log s @ [(now s, EvReveal (segment_id segment))]\<rparr>;
         s = s\<lparr>activeSegment := Some (segment_id segment)\<rparr>;
         s = triggerEffects (effects segment) s
     in if index = length segs - 1 then
          (let (finalTimeout, s) = setTimeout FinalCb (duration segment) s
           in s\<lparr>scheduleTimeoutsRef := scheduleTimeoutsRef s @ [finalTimeout]\<rparr>)
        else s)"
| "run_callback segs FinalCb s =
    (let s = s\<lparr>status := Finished, event_log := event_log s @ [(now s, EvFinished)]\<rparr>;
         s = s\<lparr>activeSegment := None\<rparr>
     in case timerIntervalRef s of
          None \<Rightarrow> s
        | Some handle \<Rightarrow>
            if handle \<noteq> 0 then (clearInterval handle s)\<lparr>timerIntervalRef := None\<rparr> else s)"

subsection \<open>\<open>startExperience\<close> (lines 435-472)\<close>

text \<open>The body of the \<open>forEach\<close> of line 451, for one \<open>(index, segment)\<close>.\<close>

definition schedule_segment :: "StorySegment list \<Rightarrow> nat \<times> StorySegment \<Rightarrow> page \<Rightarrow> page" where
  "schedule_segment segs p s =
    (let (index, segment) = p
     in if index = 0 then s
        else
          (let delay = fold (\<lambda>item sum. sum + duration item) (take index segs) 0;
               (timeout, s) = setTimeout (RevealCb segment index) delay s
           in s\<lparr>scheduleTimeoutsRef := scheduleTimeoutsRef s @ [timeout]\<rparr>))"

text \<open>The result is the outcome of the returned promise (\<open>None\<close>: resolved) and the state
  the call leaves behind.\<close>

definition startExperience :: "browser \<Rightarrow> StorySegment list \<Rightarrow> page \<Rightarrow> error option \<times> page" where
  "startExperience env segs s =
    (let s = clearSchedule s;
         s = s\<lparr>visibleSegments := []\<rparr>;
         s = s\<lparr>activeSegment := None\<rparr>;
         s = s\<lparr>status := Playing\<rparr>;
         s = s\<lparr>elapsed := 0\<rparr>
     in case ensureAudioContext env s of
          (Inl e, s) \<Rightarrow> (Some e, s)
        | (Inr (context, master), s) \<Rightarrow>
           (case beginAmbientBed master s of
              (Some e, s) \<Rightarrow> (Some e, s)
            | (None, s) \<Rightarrow>
               (case segs of
                  [] \<Rightarrow> (Some TypeError, s)
                | segment0 # rest \<Rightarrow>
                   (let s = triggerEffects (effects segment0) s;
                        s = startTimer s;
                        s = s\<lparr>visibleSegments := [segment_id segment0],
                              event_log := event_log s @ [(now s, EvReveal (segment_id segment0))]\<rparr>;
                        s = s\<lparr>activeSegment := Some (segment_id segment0)\<rparr>;
                        s = fold (schedule_segment segs) (enumerate 0 segs) s
                    in (None, s)))))"

subsection \<open>\<open>stopExperience\<close> (lines 474-481) and the unmount cleanup (lines 483-488)\<close>

definition stopExperience :: "browser \<Rightarrow> page \<Rightarrow> page" where
  "stopExperience env s =
    (let s = clearSchedule s;
         s = s\<lparr>status := Idle\<rparr>;
         s = s\<lparr>activeSegment := None\<rparr>;
         s = s\<lparr>visibleSegments := []\<rparr>;
         s = s\<lparr>elapsed := 0\<rparr>
     in teardownAudio env s)"

definition unmount :: "browser \<Rightarrow> page \<Rightarrow> page" where
  "unmount env s = teardownAudio env (clearSchedule s)"

section \<open>The event loop\<close>

text \<open>The window runs the pending timeout that is due first; of two that are due at the
  same time, the one registered first.  Running it removes it from the map of active
  timers; the clock is then at its due time, or later if the loop was late.\<close>

fun earliest :: "(nat \<times> nat \<times> callback) list \<Rightarrow> (nat \<times> nat \<times> callback) option" where
  "earliest [] = None"
| "earliest (x # xs) =
    (case earliest xs of
       None \<Rightarrow> Some x
     | Some y \<Rightarrow> if fst (snd x) \<le> fst (snd y) then Some x else Some y)"

definition fire_next :: "StorySegment list \<Rightarrow> page \<Rightarrow> page option" where
  "fire_next segs s =
    (case earliest (timeouts s) of
       None \<Rightarrow> None
     | Some (handle, due, cb) \<Rightarrow>
         Some (run_callback segs cb
                 (s\<lparr>timeouts := filter (\<lambda>t. fst t \<noteq> handle) (timeouts s),
                    now := max (now s) due\<rparr>)))"

text \<open>\<open>run segs k s\<close>: the event loop runs \<open>k\<close> timeouts, one after the other, and
  nothing else happens in between.\<close>

fun run :: "StorySegment list \<Rightarrow> nat \<Rightarrow> page \<Rightarrow> page" where
  "run segs 0 s = s"
| "run segs (Suc k) s =
    (case fire_next segs (run segs k s) of None \<Rightarrow> run segs k s | Some s' \<Rightarrow> s')"

text \<open>The states the page can be in when every handler call runs whole: any sequence of
  clicks on the two buttons, timers firing, time passing, the browser suspending the audio
  context, and the unmount.\<close>

inductive reachable :: "browser \<Rightarrow> StorySegment list \<Rightarrow> page \<Rightarrow> bool"
  for env :: browser and segs :: "StorySegment list" where
  r_init: "reachable env segs initial_page"
| r_start: "reachable env segs s \<Longrightarrow> reachable env segs (snd (startExperience env segs s))"
| r_stop: "reachable env segs s \<Longrightarrow> reachable env segs (stopExperience env s)"
| r_fire: "reachable env segs s \<Longrightarrow> fire_next segs s = Some s' \<Longrightarrow> reachable env segs s'"
| r_tick: "reachable env segs s \<Longrightarrow> (handle, startTime) \<in> set (intervals s) \<Longrightarrow>
           reachable env segs (tick segs startTime s)"
| r_wait: "reachable env segs s \<Longrightarrow> reachable env segs (s\<lparr>now := now s + d\<rparr>)"
| r_suspend: "reachable env segs s \<Longrightarrow> audioContextRef s = Some running \<Longrightarrow>
              reachable env segs (s\<lparr>audioContextRef := Some suspended\<rparr>)"
| r_unmount: "reachable env segs s \<Longrightarrow> reachable env segs (unmount env s)"

section \<open>The handlers up to their \<open>await\<close> and after it\<close>

text \<open>
  \<open>startExperience\<close> gives up control at the \<open>await\<close> of line 443, for as long as
  \<open>resume()\<close> takes when \<open>ensureAudioContext\<close> waits for it at line 178, and
  \<open>teardownAudio\<close> gives it up at line 149, until \<open>close()\<close> has settled.  The functions
  of this section are the pieces of the handlers between these points, so that other
  handlers can run between them.

  When \<open>ensureAudioContext\<close> returns without waiting, the promise is already resolved at
  line 443 and the rest of \<open>startExperience\<close> is a microtask: it runs when the click
  handler returns, before the event loop takes any other event.
\<close>

datatype start_call =
    Rejected error
  | Returned "AudioContextState option" "nat option"
  | AwaitsResume

text \<open>\<open>ensureAudioContext\<close> up to line 178: it throws, or returns \<open>{context, master}\<close>
  as the refs hold them (lines 181-184), or waits for \<open>resume()\<close>.\<close>

definition ensure_enter :: "browser \<Rightarrow> page \<Rightarrow> start_call \<times> page" where
  "ensure_enter env s =
    (if \<not> has_window env then (Rejected ServerError, s)
     else case audioContextRef s of
       None \<Rightarrow>
         if \<not> (has_AudioContext env \<or> has_webkitAudioContext env) then (Rejected UnsupportedBackend, s)
         else
           (let (masterGain, g) = createNode GainNode (graph s);
                g = connect masterGain ToDestination g;
                s = s\<lparr>graph := g, audioContextRef := Some running, masterGainRef := Some masterGain\<rparr>
            in (Returned (audioContextRef s) (masterGainRef s), s))
     | Some context \<Rightarrow>
         if context = suspended then (AwaitsResume, s)
         else (Returned (audioContextRef s) (masterGainRef s), s))"

text \<open>\<open>ensureAudioContext\<close> from line 178 on, when \<open>resume()\<close> has settled: a rejection
  is thrown on; otherwise the suspended context is running, and the pair is read from the
  refs as they are at that moment.\<close>

definition ensure_resume ::
  "browser \<Rightarrow> page \<Rightarrow> (error + AudioContextState option \<times> nat option) \<times> page" where
  "ensure_resume env s =
    (if resume_rejects env then (Inl BackendAcquisitionFailed, s)
     else
       (let s = (case audioContextRef s of
                   None \<Rightarrow> s
                 | Some context \<Rightarrow>
                     if context = suspended then s\<lparr>audioContextRef := Some running\<rparr> else s)
        in (Inr (audioContextRef s, masterGainRef s), s)))"

text \<open>Lines 436-443 of \<open>startExperience\<close>.\<close>

definition start_enter :: "browser \<Rightarrow> page \<Rightarrow> start_call \<times> page" where
  "start_enter env s =
    (let s = clearSchedule s;
         s = s\<lparr>visibleSegments := []\<rparr>;
         s = s\<lparr>activeSegment := None\<rparr>;
         s = s\<lparr>status := Playing\<rparr>;
         s = s\<lparr>elapsed := 0\<rparr>
     in ensure_enter env s)"

text \<open>Lines 444-471, with the pair that \<open>ensureAudioContext\<close> returned.  With no ambient
  bed and a null \<open>context\<close>, \<open>beginAmbientBed\<close> throws at its first
  \<open>context.createOscillator()\<close>.\<close>

definition start_continue ::
  "StorySegment list \<Rightarrow> AudioContextState option \<Rightarrow> nat option \<Rightarrow> page \<Rightarrow> error option \<times> page" where
  "start_continue segs context master s =
    (case (if ambientRef s = None \<and> context = None then (Some TypeError, s)
           else beginAmbientBed master s) of
       (Some e, s) \<Rightarrow> (Some e, s)
     | (None, s) \<Rightarrow>
        (case segs of
           [] \<Rightarrow> (Some TypeError, s)
         | segment0 # rest \<Rightarrow>
            (let s = triggerEffects (effects segment0) s;
                 s = startTimer s;
                 s = s\<lparr>visibleSegments := [segment_id segment0],
                       event_log := event_log s @ [(now s, EvReveal (segment_id segment0))]\<rparr>;
                 s = s\<lparr>activeSegment := Some (segment_id segment0)\<rparr>;
                 s = fold (schedule_segment segs) (enumerate 0 segs) s
             in (None, s))))"

text \<open>\<open>startExperience\<close> from the moment \<open>resume()\<close> has settled.\<close>

definition start_resume :: "browser \<Rightarrow> StorySegment list \<Rightarrow> page \<Rightarrow> error option \<times> page" where
  "start_resume env segs s =
    (case ensure_resume env s of
       (Inl e, s) \<Rightarrow> (Some e, s)
     | (Inr (context, master), s) \<Rightarrow> start_continue segs context master s)"

text \<open>\<open>teardownAudio\<close> up to line 149 (\<open>True\<close>: it waits for \<open>close()\<close>), and its line
  154 when \<open>close()\<close> has settled: the ref is set to null, whatever it holds then.\<close>

definition teardown_enter :: "browser \<Rightarrow> page \<Rightarrow> bool \<times> page" where
  "teardown_enter env s =
    (let s = stopAmbient env s;
         s = (case masterGainRef s of
                None \<Rightarrow> s
              | Some masterGain \<Rightarrow> s\<lparr>graph := disconnect masterGain (graph s), masterGainRef := None\<rparr>)
     in case audioContextRef s of
          None \<Rightarrow> (False, s)
        | Some context \<Rightarrow>
            if context \<noteq> closed then (True, s) else (False, s\<lparr>audioContextRef := None\<rparr>))"

definition teardown_finish :: "page \<Rightarrow> page" where
  "teardown_finish s = s\<lparr>audioContextRef := None\<rparr>"

definition stop_enter :: "browser \<Rightarrow> page \<Rightarrow> bool \<times> page" where
  "stop_enter env s =
    (let s = clearSchedule s;
         s = s\<lparr>status := Idle\<rparr>;
         s = s\<lparr>activeSegment := None\<rparr>;
         s = s\<lparr>visibleSegments := []\<rparr>;
         s = s\<lparr>elapsed := 0\<rparr>
     in teardown_enter env s)"

definition unmount_enter :: "browser \<Rightarrow> page \<Rightarrow> bool \<times> page" where
  "unmount_enter env s = teardown_enter env (clearSchedule s)"

text \<open>
  The states the page can be in when handlers interleave at their \<open>await\<close>s.
  \<open>interleaved env segs s w c\<close>: the page is in state \<open>s\<close> while \<open>w\<close> calls of
  \<open>startExperience\<close> wait for \<open>resume()\<close> and \<open>c\<close> calls of \<open>teardownAudio\<close> wait for
  \<open>close()\<close>.  Everything may happen while a call waits, with one exception:
  \<open>startExperience\<close> is not entered while an earlier call of it is still waiting.
  Each \<open>resume()\<close> that is waited for may resolve or reject, whatever the browser's
  \<open>resume_rejects\<close> says of a call that runs whole.
\<close>

inductive interleaved :: "browser \<Rightarrow> StorySegment list \<Rightarrow> page \<Rightarrow> nat \<Rightarrow> nat \<Rightarrow> bool"
  for env :: browser and segs :: "StorySegment list" where
  i_init: "interleaved env segs initial_page 0 0"
| i_start_rejected: "interleaved env segs s 0 c \<Longrightarrow> start_enter env s = (Rejected e, s') \<Longrightarrow>
                     interleaved env segs s' 0 c"
| i_start_returned: "interleaved env segs s 0 c \<Longrightarrow> start_enter env s = (Returned context master, s') \<Longrightarrow>
                     interleaved env segs (snd (start_continue segs context master s')) 0 c"
| i_start_waits: "interleaved env segs s 0 c \<Longrightarrow> start_enter env s = (AwaitsResume, s') \<Longrightarrow>
                  interleaved env segs s' 1 c"
| i_start_resumes: "interleaved env segs s (Suc w) c \<Longrightarrow>
                    interleaved env segs
                      (snd (start_resume (env\<lparr>resume_rejects := rejects\<rparr>) segs s)) w c"
| i_stop: "interleaved env segs s w c \<Longrightarrow> stop_enter env s = (waits, s') \<Longrightarrow>
           interleaved env segs s' w (if waits then Suc c else c)"
| i_unmount: "interleaved env segs s w c \<Longrightarrow> unmount_enter env s = (waits, s') \<Longrightarrow>
              interleaved env segs s' w (if waits then Suc c else c)"
| i_closed: "interleaved env segs s w (Suc c) \<Longrightarrow> interleaved env segs (teardown_finish s) w c"
| i_fire: "interleaved env segs s w c \<Longrightarrow> fire_next segs s = Some s' \<Longrightarrow> interleaved env segs s' w c"
| i_tick: "interleaved env segs s w c \<Longrightarrow> (handle, startTime) \<in> set (intervals s) \<Longrightarrow>
           interleaved env segs (tick segs startTime s) w c"
| i_wait: "interleaved env segs s w c \<Longrightarrow> interleaved env segs (s\<lparr>now := now s + d\<rparr>) w c"
| i_suspend: "interleaved env segs s w c \<Longrightarrow> audioContextRef s = Some running \<Longrightarrow>
              interleaved env segs (s\<lparr>audioContextRef := Some suspended\<rparr>) w c"

section \<open>Notions used in the statements\<close>

text \<open>The delay of line 453: the sum of the durations of the segments before \<open>index\<close>.\<close>

definition offset :: "StorySegment list \<Rightarrow> nat \<Rightarrow> nat" where
  "offset segs index = fold (\<lambda>item sum. sum + duration item) (take index segs) 0"

text \<open>The handles that \<open>clearSchedule\<close> passes to \<open>clearTimeout\<close> and \<open>clearInterval\<close>.\<close>

definition cleared :: "page \<Rightarrow> nat set" where
  "cleared s = set (scheduleTimeoutsRef s) \<union> (case timerIntervalRef s of None \<Rightarrow> {} | Some h \<Rightarrow> if h \<noteq> 0 then {h} else {})"

text \<open>The effects that \<open>triggerEffects\<close> really plays in a state, and the graph it leaves.\<close>

definition played :: "StoryEffect list option \<Rightarrow> page \<Rightarrow> StoryEffect list" where
  "played fx s =
    (case fx of
       None \<Rightarrow> []
     | Some effs \<Rightarrow>
        (case audioContextRef s of
           None \<Rightarrow> []
         | Some context \<Rightarrow> (case masterGainRef s of None \<Rightarrow> [] | Some master \<Rightarrow> effs)))"

definition voices :: "StoryEffect list \<Rightarrow> page \<Rightarrow> audio_graph" where
  "voices effs s =
    (case masterGainRef s of None \<Rightarrow> graph s | Some master \<Rightarrow> fold (play_effect master) effs (graph s))"

text \<open>The reveal callbacks of one run that are still pending from segment \<open>k\<close> on: the
  run was scheduled at time \<open>t\<close> and the callback of segment \<open>i\<close> got the handle \<open>h + i\<close>.\<close>

definition pending :: "StorySegment list \<Rightarrow> nat \<Rightarrow> nat \<Rightarrow> nat \<Rightarrow> (nat \<times> nat \<times> callback) list" where
  "pending segs h t k =
     map (\<lambda>i. (h + i, t + offset segs i, RevealCb (segs ! i) i)) [k..<length segs]"

text \<open>\<open>s'\<close> differs from \<open>s\<close> in the audio refs, the node graph and the event log only.\<close>

definition audio_only :: "page \<Rightarrow> page \<Rightarrow> bool" where
  "audio_only s s' \<longleftrightarrow>
     (\<exists>g c m a l. s' = s\<lparr>graph := g, audioContextRef := c, masterGainRef := m,
                             ambientRef := a, event_log := l\<rparr>)"

text \<open>The three phases of \<open>startExperience\<close>: the state when it reaches the \<open>await\<close>
  (lines 436-441), the state after the audio phase (lines 443-445) or at the point where
  that phase threw, and the scheduling phase (lines 447-471) in closed form.\<close>

definition start_prep :: "page \<Rightarrow> page" where
  "start_prep s =
     (clearSchedule s)\<lparr>visibleSegments := [], activeSegment := None, status := Playing, elapsed := 0\<rparr>"

definition acquired :: "browser \<Rightarrow> StorySegment list \<Rightarrow> page \<Rightarrow> page" where
  "acquired env segs s =
    (case ensureAudioContext env (start_prep s) of
       (Inl e, s1) \<Rightarrow> s1
     | (Inr (context, master), s1) \<Rightarrow>
        (case beginAmbientBed master s1 of
           (Some e, s2) \<Rightarrow> s2
         | (None, s2) \<Rightarrow>
            (case segs of [] \<Rightarrow> s2 | segment0 # rest \<Rightarrow> triggerEffects (effects segment0) s2)))"

definition scheduled :: "StorySegment list \<Rightarrow> page \<Rightarrow> page" where
  "scheduled segs a =
     a\<lparr>elapsed := 0,
       intervals := intervals a @ [(next_handle a, now a)],
       timerIntervalRef := Some (next_handle a),
       visibleSegments := [segment_id (hd segs)],
       event_log := event_log a @ [(now a, EvReveal (segment_id (hd segs)))],
       activeSegment := Some (segment_id (hd segs)),
       timeouts := timeouts a @ pending segs (next_handle a) (now a) 1,
       next_handle := next_handle a + length segs,
       scheduleTimeoutsRef := scheduleTimeoutsRef a @ map fst (pending segs (next_handle a) (now a) 1)\<rparr>"

text \<open>Every active timer is recorded in the refs, and the recorded handles are ones the
  window handed out.\<close>

definition handles_ok :: "page \<Rightarrow> bool" where
  "handles_ok s \<longleftrightarrow>
     0 < next_handle s \<and>
     (\<forall>t\<in>set (timeouts s). fst t \<in> set (scheduleTimeoutsRef s)) \<and>
     (\<forall>t\<in>set (intervals s). timerIntervalRef s = Some (fst t)) \<and>
     (\<forall>h. timerIntervalRef s = Some h \<longrightarrow> 0 < h \<and> h < next_handle s \<and> h \<notin> fst ` set (timeouts s))"

text \<open>Lines 455-457 of the reveal callback.\<close>

definition revealed :: "StorySegment \<Rightarrow> page \<Rightarrow> page" where
  "revealed segment s =
     triggerEffects (effects segment)
       (s\<lparr>visibleSegments := Set_from (visibleSegments s @ [segment_id segment]),
          event_log := event_log s @ [(now s, EvReveal (segment_id segment))],
          activeSegment := Some (segment_id segment)\<rparr>)"

text \<open>The pending timeouts are the rest of the schedule of a single run, or its one final
  callback.\<close>

definition one_run :: "StorySegment list \<Rightarrow> page \<Rightarrow> bool" where
  "one_run segs s \<longleftrightarrow>
     (\<exists>h t k. 0 < k \<and> timeouts s = pending segs h t k) \<or> (\<exists>h d. timeouts s = [(h, d, FinalCb)])"

definition finished_ok :: "page \<Rightarrow> bool" where
  "finished_ok s \<longleftrightarrow> (status s = Finished \<longrightarrow> activeSegment s = None \<and> timeouts s = [])"

text \<open>The time at which a run that the event loop serves on time reaches \<open>Finished\<close>:
  a timeline of \<open>n\<close> segments registers \<open>n - 1\<close> reveal callbacks and one final callback.\<close>

definition finished_at :: "StorySegment list \<Rightarrow> page \<Rightarrow> nat option" where
  "finished_at segs s1 =
     (let s = run segs (length segs) s1 in if status s = Finished then Some (now s) else None)"

text \<open>The segment of the most recent reveal in the event log, and the invariant that the
  active segment is that one while a run shows something.\<close>

definition last_revealed :: "(nat \<times> event) list \<Rightarrow> string option" where
  "last_revealed l =
     fold (\<lambda>entry r. case snd entry of EvReveal sid \<Rightarrow> Some sid | _ \<Rightarrow> r) l None"

definition latest_ok :: "page \<Rightarrow> bool" where
  "latest_ok s \<longleftrightarrow>
     (status s = Playing \<and> visibleSegments s \<noteq> [] \<longrightarrow>
        (\<exists>sid. activeSegment s = Some sid \<and> last_revealed (event_log s) = Some sid))"

text \<open>The nodes an ambient bed instance holds, and the invariant that every node that is
  started and was never told to stop is one of them.\<close>

definition owned :: "AmbientNodes \<Rightarrow> nat list" where
  "owned a =
     oscillators a @ (case tremolo a of None \<Rightarrow> [] | Some t \<Rightarrow> [t]) @
     (case noise a of None \<Rightarrow> [] | Some n \<Rightarrow> [n])"

definition alive_ok :: "page \<Rightarrow> bool" where
  "alive_ok s \<longleftrightarrow>
     (\<forall>n. play (nodes (graph s) n) = Started \<longrightarrow>
            (\<exists>a. ambientRef s = Some a \<and> n \<in> set (owned a))) \<and>
     (\<forall>a. ambientRef s = Some a \<longrightarrow> length (owned a) = 4)"

text \<open>The clock values at which a list of log entries records the reveal of the segment
  \<open>sid\<close>, and those at which it records an effect.  \<open>no_earlier sid evs\<close>: the list
  records the reveal of \<open>sid\<close>, and no effect in it carries a clock value below that of
  the reveal.\<close>

definition reveal_times :: "string \<Rightarrow> (nat \<times> event) list \<Rightarrow> nat list" where
  "reveal_times sid evs = map fst (filter (\<lambda>entry. snd entry = EvReveal sid) evs)"

definition effect_times :: "(nat \<times> event) list \<Rightarrow> nat list" where
  "effect_times evs =
     map fst (filter (\<lambda>entry. case snd entry of EvEffect e \<Rightarrow> True | _ \<Rightarrow> False) evs)"

definition no_earlier :: "string \<Rightarrow> (nat \<times> event) list \<Rightarrow> bool" where
  "no_earlier sid evs \<longleftrightarrow>
     reveal_times sid evs \<noteq> [] \<and>
     list_all (\<lambda>r. list_all (\<lambda>t. r \<le> t) (effect_times evs)) (reveal_times sid evs)"

text \<open>What the controller and the renderer see of a page: everything but the audio refs and
  the node graph.\<close>

definition controller_view ::
  "page \<Rightarrow> string list \<times> string option \<times> Status \<times> nat \<times> (nat \<times> nat \<times> callback) list \<times>
     (nat \<times> nat) list \<times> nat list \<times> nat option \<times> nat \<times> nat \<times> (nat \<times> event) list" where
  "controller_view s =
     (visibleSegments s, activeSegment s, status s, elapsed s, timeouts s, intervals s,
      scheduleTimeoutsRef s, timerIntervalRef s, next_handle s, now s, event_log s)"

text \<open>The number of audio nodes one voice of each kind creates.\<close>

fun voice_nodes :: "StoryEffect \<Rightarrow> nat" where
  "voice_nodes Heartbeat = 2"
| "voice_nodes Creak = 3"
| "voice_nodes Whisper = 3"
| "voice_nodes Gust = 3"
| "voice_nodes Chime = 6"

text \<open>A browser with the Web Audio API, for the concrete instances below.\<close>

definition modern_browser :: browser where
  "modern_browser =
    \<lparr>has_window = True, has_AudioContext = True, has_webkitAudioContext = False,
     resume_rejects = False, stop_twice_throws = False\<rparr>"

text \<open>A browser with the prefixed constructor only, in which a second \<open>stop()\<close> throws, and
  an ambient bed in it whose bass oscillator was stopped before.\<close>

definition legacy_browser :: browser where
  "legacy_browser = modern_browser\<lparr>has_AudioContext := False, has_webkitAudioContext := True,
                                     stop_twice_throws := True\<rparr>"

definition bed_with_stopped_bass :: page where
  "bed_with_stopped_bass =
     (let s = snd (beginAmbientBed (Some 0) (snd (ensureAudioContext legacy_browser initial_page)))
      in s\<lparr>graph := stop_later 1 (graph s)\<rparr>)"

text \<open>A browser without the Web Audio API, and the page after the whole story has played
  in a browser that has it.\<close>

definition no_audio_browser :: browser where
  "no_audio_browser = modern_browser\<lparr>has_AudioContext := False\<rparr>"

definition finished_story :: page where
  "finished_story =
     run STORY_SEGMENTS 8 (snd (startExperience modern_browser STORY_SEGMENTS initial_page))"



section \<open>Lemmas\<close>

lemma fold_duration: "fold (\<lambda>item sum. sum + duration item) xs a = a + sum_list (map duration xs)"
  by (induction xs arbitrary: a) auto

lemma offset_sum: "offset segs i = sum_list (map duration (take i segs))"
  by (simp add: offset_def fold_duration)

lemma TOTAL_DURATION_sum: "TOTAL_DURATION segs = sum_list (map duration segs)"
  by (simp add: TOTAL_DURATION_def fold_duration)

lemma offset_Suc: "i < length segs \<Longrightarrow> offset segs (Suc i) = offset segs i + duration (segs ! i)"
  by (simp add: offset_sum take_Suc_conv_app_nth)

lemma offset_mono: "i \<le> j \<Longrightarrow> offset segs i \<le> offset segs j"
proof (induction j)
  case 0
  then show ?case by simp
next
  case (Suc j)
  show ?case
  proof (cases "i = Suc j")
    case True
    then show ?thesis by simp
  next
    case False
    with Suc have le: "offset segs i \<le> offset segs j" by simp
    show ?thesis
    proof (cases "j < length segs")
      case True
      with le show ?thesis by (simp add: offset_Suc)
    next
      case False
      then show ?thesis using le by (simp add: offset_sum)
    qed
  qed
qed

lemma offset_all: "length segs \<le> i \<Longrightarrow> offset segs i = TOTAL_DURATION segs"
  by (simp add: offset_sum TOTAL_DURATION_sum)

lemma offset_butlast: "offset segs (length segs - Suc 0) = sum_list (map duration (butlast segs))"
  by (simp add: offset_sum butlast_conv_take)

lemma duration_butlast:
  assumes "segs \<noteq> []"
  shows "sum_list (map duration (butlast segs)) + duration (last segs) = TOTAL_DURATION segs"
proof -
  have "butlast segs @ [last segs] = segs"
    using assms by simp
  then have "map duration segs = map duration (butlast segs) @ [duration (last segs)]"
    by (metis map_append list.simps(8,9))
  then show ?thesis
    by (simp add: TOTAL_DURATION_sum)
qed

lemma fold_clearTimeout:
  "fold clearTimeout hs s =
     s\<lparr>timeouts := filter (\<lambda>t. fst t \<notin> set hs) (timeouts s),
       intervals := filter (\<lambda>t. fst t \<notin> set hs) (intervals s)\<rparr>"
proof (induction hs arbitrary: s)
  case Nil
  then show ?case by simp
next
  case (Cons h hs)
  have step: "clearTimeout h s =
      s\<lparr>timeouts := filter (\<lambda>t. fst t \<noteq> h) (timeouts s),
        intervals := filter (\<lambda>t. fst t \<noteq> h) (intervals s)\<rparr>"
    by (simp add: clearTimeout_def clearTimer_def)
  have "fold clearTimeout (h # hs) s = fold clearTimeout hs (clearTimeout h s)"
    by simp
  also have "\<dots> = s\<lparr>timeouts := filter (\<lambda>t. fst t \<notin> set (h # hs)) (timeouts s),
       intervals := filter (\<lambda>t. fst t \<notin> set (h # hs)) (intervals s)\<rparr>"
    unfolding step by (simp add: Cons conj_commute)
  finally show ?case .
qed

lemma clearSchedule_eq:
  "clearSchedule s =
     s\<lparr>timeouts := filter (\<lambda>t. fst t \<notin> cleared s) (timeouts s),
       intervals := filter (\<lambda>t. fst t \<notin> cleared s) (intervals s),
       scheduleTimeoutsRef := [],
       timerIntervalRef := (if timerIntervalRef s = Some 0 then Some 0 else None)\<rparr>"
  by (auto simp: clearSchedule_def fold_clearTimeout cleared_def Let_def clearInterval_def clearTimer_def conj_commute
      split: option.splits)

lemma fold_effects:
  "fold (\<lambda>effect s. s\<lparr>graph := play_effect m effect (graph s),
                      event_log := event_log s @ [(now s, EvEffect effect)]\<rparr>) effs s =
   s\<lparr>graph := fold (play_effect m) effs (graph s),
     event_log := event_log s @ map (\<lambda>e. (now s, EvEffect e)) effs\<rparr>"
  by (induction effs arbitrary: s) simp_all

lemma triggerEffects_eq:
  "triggerEffects fx s =
     s\<lparr>graph := voices (played fx s) s,
       event_log := event_log s @ map (\<lambda>e. (now s, EvEffect e)) (played fx s)\<rparr>"
  by (simp add: triggerEffects_def fold_effects played_def voices_def split: option.splits)

lemma schedule_segment_eq:
  "0 < k \<Longrightarrow> schedule_segment segs (k, x) s =
     s\<lparr>timeouts := timeouts s @ [(next_handle s, now s + offset segs k, RevealCb x k)],
       next_handle := Suc (next_handle s),
       scheduleTimeoutsRef := scheduleTimeoutsRef s @ [next_handle s]\<rparr>"
  by (simp add: schedule_segment_def setTimeout_def offset_def)

lemma fold_schedule_segment:
  "0 < k \<Longrightarrow> next_handle s = b + k \<Longrightarrow>
   fold (schedule_segment segs) (enumerate k xs) s =
     s\<lparr>timeouts := timeouts s @
          map (\<lambda>(i, seg). (b + i, now s + offset segs i, RevealCb seg i)) (enumerate k xs),
       next_handle := b + k + length xs,
       scheduleTimeoutsRef := scheduleTimeoutsRef s @ map (\<lambda>(i, seg). b + i) (enumerate k xs)\<rparr>"
proof (induction xs arbitrary: k s)
  case Nil
  then show ?case by simp
next
  case (Cons x xs)
  let ?s1 = "schedule_segment segs (k, x) s"
  have s1: "?s1 = s\<lparr>timeouts := timeouts s @ [(b + k, now s + offset segs k, RevealCb x k)],
       next_handle := b + Suc k,
       scheduleTimeoutsRef := scheduleTimeoutsRef s @ [b + k]\<rparr>"
    using Cons.prems by (simp add: schedule_segment_eq)
  have nh: "next_handle ?s1 = b + Suc k" and "0 < Suc k"
    by (simp_all add: s1)
  have "fold (schedule_segment segs) (enumerate k (x # xs)) s =
        fold (schedule_segment segs) (enumerate (Suc k) xs) ?s1"
    by simp
  also have "\<dots> =
     ?s1\<lparr>timeouts := timeouts ?s1 @
          map (\<lambda>(i, seg). (b + i, now ?s1 + offset segs i, RevealCb seg i)) (enumerate (Suc k) xs),
       next_handle := b + Suc k + length xs,
       scheduleTimeoutsRef := scheduleTimeoutsRef ?s1 @ map (\<lambda>(i, seg). b + i) (enumerate (Suc k) xs)\<rparr>"
    by (rule Cons.IH [OF \<open>0 < Suc k\<close> nh])
  also have "\<dots> = s\<lparr>timeouts := timeouts s @
          map (\<lambda>(i, seg). (b + i, now s + offset segs i, RevealCb seg i)) (enumerate k (x # xs)),
       next_handle := b + k + length (x # xs),
       scheduleTimeoutsRef := scheduleTimeoutsRef s @ map (\<lambda>(i, seg). b + i) (enumerate k (x # xs))\<rparr>"
    unfolding s1 by simp
  finally show ?case .
qed

lemma enumerate_drop: "enumerate k (drop k xs) = map (\<lambda>i. (i, xs ! i)) [k..<length xs]"
  by (rule nth_equalityI) (auto simp: nth_enumerate_eq)

lemma fold_schedule_all:
  assumes "next_handle s = Suc b"
  shows "fold (schedule_segment segs) (enumerate 0 segs) s =
     s\<lparr>timeouts := timeouts s @ pending segs b (now s) 1,
       next_handle := b + max 1 (length segs),
       scheduleTimeoutsRef := scheduleTimeoutsRef s @ map fst (pending segs b (now s) 1)\<rparr>"
proof (cases segs)
  case Nil
  then show ?thesis using assms by (simp add: pending_def)
next
  case (Cons seg0 rest)
  have first: "schedule_segment segs (0, seg0) s = s"
    by (simp add: schedule_segment_def)
  have rest: "rest = drop 1 segs"
    by (simp add: Cons)
  have "fold (schedule_segment segs) (enumerate 0 segs) s =
        fold (schedule_segment segs) (enumerate 1 rest) s"
    by (simp add: Cons first [unfolded Cons])
  also have "\<dots> = s\<lparr>timeouts := timeouts s @
          map (\<lambda>(i, seg). (b + i, now s + offset segs i, RevealCb seg i)) (enumerate 1 rest),
       next_handle := b + 1 + length rest,
       scheduleTimeoutsRef := scheduleTimeoutsRef s @ map (\<lambda>(i, seg). b + i) (enumerate 1 rest)\<rparr>"
    by (rule fold_schedule_segment) (simp_all add: assms)
  also have "map (\<lambda>(i, seg). (b + i, now s + offset segs i, RevealCb seg i)) (enumerate 1 rest) =
       pending segs b (now s) 1"
    unfolding rest enumerate_drop by (simp add: pending_def)
  also have "map (\<lambda>(i, seg). b + i) (enumerate 1 rest) = map fst (pending segs b (now s) 1)"
    unfolding rest enumerate_drop by (simp add: pending_def comp_def)
  finally show ?thesis
    by (simp add: Cons)
qed

lemma audio_onlyI:
  "s' = s\<lparr>graph := g, audioContextRef := c, masterGainRef := m, ambientRef := a, event_log := l\<rparr>
   \<Longrightarrow> audio_only s s'"
  unfolding audio_only_def by blast


lemma audio_onlyD:
  assumes "audio_only s s'"
  shows "visibleSegments s' = visibleSegments s" "activeSegment s' = activeSegment s"
    "status s' = status s" "elapsed s' = elapsed s"
    "scheduleTimeoutsRef s' = scheduleTimeoutsRef s" "timerIntervalRef s' = timerIntervalRef s"
    "timeouts s' = timeouts s" "intervals s' = intervals s" "next_handle s' = next_handle s"
    "now s' = now s"
proof -
  from assms obtain g c m a l where
    "s' = s\<lparr>graph := g, audioContextRef := c, masterGainRef := m, ambientRef := a, event_log := l\<rparr>"
    unfolding audio_only_def by blast
  then show "visibleSegments s' = visibleSegments s" "activeSegment s' = activeSegment s"
    "status s' = status s" "elapsed s' = elapsed s"
    "scheduleTimeoutsRef s' = scheduleTimeoutsRef s" "timerIntervalRef s' = timerIntervalRef s"
    "timeouts s' = timeouts s" "intervals s' = intervals s" "next_handle s' = next_handle s"
    "now s' = now s"
    by simp_all
qed

lemma audio_only_trans:
  assumes "audio_only s s'" "audio_only s' s''"
  shows "audio_only s s''"
proof -
  from assms(1) obtain g c m a l where
    1: "s' = s\<lparr>graph := g, audioContextRef := c, masterGainRef := m, ambientRef := a, event_log := l\<rparr>"
    unfolding audio_only_def by blast
  from assms(2) obtain g' c' m' a' l' where
    2: "s'' = s'\<lparr>graph := g', audioContextRef := c', masterGainRef := m', ambientRef := a', event_log := l'\<rparr>"
    unfolding audio_only_def by blast
  show ?thesis
    by (rule audio_onlyI [where g = g' and c = c' and m = m' and a = a' and l = l'])
       (simp add: 1 2)
qed

lemma audio_only_iff:
  "audio_only s s' \<longleftrightarrow>
     s' = s\<lparr>graph := graph s', audioContextRef := audioContextRef s',
            masterGainRef := masterGainRef s', ambientRef := ambientRef s',
            event_log := event_log s'\<rparr>"
proof
  assume "audio_only s s'"
  then obtain g c m a l where
    "s' = s\<lparr>graph := g, audioContextRef := c, masterGainRef := m, ambientRef := a, event_log := l\<rparr>"
    unfolding audio_only_def by blast
  then show "s' = s\<lparr>graph := graph s', audioContextRef := audioContextRef s',
            masterGainRef := masterGainRef s', ambientRef := ambientRef s',
            event_log := event_log s'\<rparr>"
    by simp
next
  assume "s' = s\<lparr>graph := graph s', audioContextRef := audioContextRef s',
            masterGainRef := masterGainRef s', ambientRef := ambientRef s',
            event_log := event_log s'\<rparr>"
  then show "audio_only s s'"
    by (rule audio_onlyI)
qed

lemma audio_only_ensureAudioContext: "audio_only s (snd (ensureAudioContext env s))"
  by (simp add: audio_only_iff ensureAudioContext_def Let_def split: option.splits prod.splits)

lemma audio_only_beginAmbientBed: "audio_only s (snd (beginAmbientBed m s))"
  by (simp add: audio_only_iff beginAmbientBed_def Let_def split: option.splits prod.splits)

lemma audio_only_triggerEffects: "audio_only s (triggerEffects fx s)"
  by (simp add: audio_only_iff triggerEffects_eq)

lemma audio_only_stopAmbient: "audio_only s (stopAmbient env s)"
  by (simp add: audio_only_iff stopAmbient_def Let_def split: option.splits)

lemma audio_only_teardownAudio: "audio_only s (teardownAudio env s)"
proof -
  have "audio_only (stopAmbient env s) (teardownAudio env s)"
    by (simp add: audio_only_iff teardownAudio_def Let_def split: option.splits)
  with audio_only_stopAmbient show ?thesis
    by (rule audio_only_trans)
qed

lemma audio_only_acquired: "audio_only (start_prep s) (acquired env segs s)"
proof -
  obtain r s1 where e: "ensureAudioContext env (start_prep s) = (r, s1)"
    by (cases "ensureAudioContext env (start_prep s)")
  have 1: "audio_only (start_prep s) s1"
    using audio_only_ensureAudioContext [of "start_prep s" env] by (simp add: e)
  show ?thesis
  proof (cases r)
    case (Inl err)
    then show ?thesis using 1 by (simp add: acquired_def e)
  next
    case (Inr cm)
    obtain c m where cm: "cm = (c, m)" by (cases cm)
    obtain eo s2 where b: "beginAmbientBed m s1 = (eo, s2)"
      by (cases "beginAmbientBed m s1")
    have "audio_only s1 s2"
      using audio_only_beginAmbientBed [of s1 m] by (simp add: b)
    with 1 have 2: "audio_only (start_prep s) s2"
      by (rule audio_only_trans)
    have 3: "audio_only (start_prep s) (triggerEffects fx s2)" for fx
      using 2 audio_only_triggerEffects by (rule audio_only_trans)
    show ?thesis
      using 2 3 by (simp add: acquired_def e Inr cm b split: option.splits list.splits)
  qed
qed

lemma start_failed:
  "fst (startExperience env segs s) = Some e \<Longrightarrow> snd (startExperience env segs s) = acquired env segs s"
  by (simp add: startExperience_def acquired_def start_prep_def Let_def
      split: prod.splits sum.splits option.splits list.splits)

lemma scheduled_eq:
  "segs = segment0 # rest \<Longrightarrow>
   fold (schedule_segment segs) (enumerate 0 segs)
     ((startTimer a)\<lparr>visibleSegments := [segment_id segment0],
                     event_log := event_log (startTimer a) @ [(now (startTimer a), EvReveal (segment_id segment0))],
                     activeSegment := Some (segment_id segment0)\<rparr>) = scheduled segs a"
  by (subst fold_schedule_all [where b = "next_handle a"])
     (simp_all add: startTimer_def setInterval_def Let_def scheduled_def)

lemma start_ok:
  assumes "fst (startExperience env segs s) = None"
  shows "segs \<noteq> []" and "snd (startExperience env segs s) = scheduled segs (acquired env segs s)"
proof -
  show "segs \<noteq> []"
    using assms
    by (auto simp: startExperience_def Let_def split: prod.splits sum.splits option.splits)
  then obtain segment0 rest where segs: "segs = segment0 # rest"
    by (cases segs) auto
  show "snd (startExperience env segs s) = scheduled segs (acquired env segs s)"
    using assms scheduled_eq [OF segs] unfolding segs
    by (simp add: startExperience_def acquired_def start_prep_def Let_def
      split: prod.splits sum.splits option.splits)
qed

lemma clearSchedule_clears:
  assumes "handles_ok s"
  shows "clearSchedule s =
     s\<lparr>timeouts := [], intervals := [], scheduleTimeoutsRef := [], timerIntervalRef := None\<rparr>"
proof -
  have t: "filter (\<lambda>t. fst t \<notin> cleared s) (timeouts s) = []"
    using assms by (auto simp: handles_ok_def cleared_def filter_empty_conv)
  have i: "filter (\<lambda>t. fst t \<notin> cleared s) (intervals s) = []"
    using assms by (auto simp: handles_ok_def cleared_def filter_empty_conv)
  have r: "timerIntervalRef s \<noteq> Some 0"
    using assms by (auto simp: handles_ok_def)
  show ?thesis
    by (simp add: clearSchedule_eq t i r)
qed

lemma handles_ok_audio_only: "audio_only s s' \<Longrightarrow> handles_ok s \<Longrightarrow> handles_ok s'"
  by (simp add: handles_ok_def audio_onlyD)

lemma handles_ok_start_prep: "handles_ok s \<Longrightarrow> handles_ok (start_prep s)"
  by (simp add: start_prep_def clearSchedule_clears) (simp add: handles_ok_def)

lemma handles_ok_scheduled: "handles_ok a \<Longrightarrow> timeouts a = [] \<Longrightarrow> intervals a = [] \<Longrightarrow>
  segs \<noteq> [] \<Longrightarrow> handles_ok (scheduled segs a)"
  by (auto simp: handles_ok_def scheduled_def pending_def)

lemma start_prep_timers:
  "handles_ok s \<Longrightarrow> timeouts (start_prep s) = [] \<and> intervals (start_prep s) = [] \<and>
     scheduleTimeoutsRef (start_prep s) = [] \<and> timerIntervalRef (start_prep s) = None \<and>
     next_handle (start_prep s) = next_handle s \<and> now (start_prep s) = now s"
  by (simp add: start_prep_def clearSchedule_clears)

lemma acquired_timers:
  assumes "handles_ok s"
  shows "timeouts (acquired env segs s) = []" "intervals (acquired env segs s) = []"
    "scheduleTimeoutsRef (acquired env segs s) = []" "timerIntervalRef (acquired env segs s) = None"
    "next_handle (acquired env segs s) = next_handle s" "now (acquired env segs s) = now s"
    "status (acquired env segs s) = Playing" "visibleSegments (acquired env segs s) = []"
    "activeSegment (acquired env segs s) = None" "elapsed (acquired env segs s) = 0"
  using start_prep_timers [OF assms] audio_onlyD [OF audio_only_acquired, of env segs s]
  by (simp_all add: start_prep_def)

lemma handles_ok_startExperience:
  assumes "handles_ok s"
  shows "handles_ok (snd (startExperience env segs s))"
proof (cases "fst (startExperience env segs s)")
  case None
  have "handles_ok (acquired env segs s)"
    using audio_only_acquired handles_ok_start_prep [OF assms] by (rule handles_ok_audio_only)
  then show ?thesis
    by (simp add: start_ok [OF None] handles_ok_scheduled acquired_timers [OF assms])
next
  case (Some e)
  show ?thesis
    unfolding start_failed [OF Some]
    using audio_only_acquired handles_ok_start_prep [OF assms] by (rule handles_ok_audio_only)
qed

lemma handles_ok_stopExperience:
  assumes "handles_ok s"
  shows "handles_ok (stopExperience env s)"
proof -
  have "handles_ok ((clearSchedule s)\<lparr>status := Idle, activeSegment := None, visibleSegments := [], elapsed := 0\<rparr>)"
    by (simp add: clearSchedule_clears [OF assms]) (use assms in \<open>simp add: handles_ok_def\<close>)
  with audio_only_teardownAudio show ?thesis
    unfolding stopExperience_def Let_def by (rule handles_ok_audio_only)
qed

lemma handles_ok_unmount:
  assumes "handles_ok s"
  shows "handles_ok (unmount env s)"
proof -
  have "handles_ok (clearSchedule s)"
    by (simp add: clearSchedule_clears [OF assms]) (use assms in \<open>simp add: handles_ok_def\<close>)
  with audio_only_teardownAudio show ?thesis
    unfolding unmount_def by (rule handles_ok_audio_only)
qed

lemma revealed_simps:
  "visibleSegments (revealed seg s) = Set_from (visibleSegments s @ [segment_id seg])"
  "activeSegment (revealed seg s) = Some (segment_id seg)"
  "status (revealed seg s) = status s" "elapsed (revealed seg s) = elapsed s"
  "scheduleTimeoutsRef (revealed seg s) = scheduleTimeoutsRef s"
  "timerIntervalRef (revealed seg s) = timerIntervalRef s"
  "timeouts (revealed seg s) = timeouts s" "intervals (revealed seg s) = intervals s"
  "next_handle (revealed seg s) = next_handle s" "now (revealed seg s) = now s"
  "audioContextRef (revealed seg s) = audioContextRef s"
  "masterGainRef (revealed seg s) = masterGainRef s"
  "ambientRef (revealed seg s) = ambientRef s"
  "event_log (revealed seg s) =
     event_log s @ (now s, EvReveal (segment_id seg)) #
       map (\<lambda>e. (now s, EvEffect e)) (played (effects seg) s)"
  by (simp_all add: revealed_def triggerEffects_eq played_def cong: option.case_cong)

lemma run_callback_reveal:
  "run_callback segs (RevealCb seg i) s =
     (let a = revealed seg s
      in if i = length segs - 1
         then a\<lparr>timeouts := timeouts a @ [(next_handle a, now a + duration seg, FinalCb)],
                next_handle := Suc (next_handle a),
                scheduleTimeoutsRef := scheduleTimeoutsRef a @ [next_handle a]\<rparr>
         else a)"
  by (simp add: revealed_def setTimeout_def Let_def)

lemma run_callback_final:
  assumes "handles_ok s"
  shows "run_callback segs FinalCb s =
     s\<lparr>status := Finished, event_log := event_log s @ [(now s, EvFinished)],
       activeSegment := None, intervals := [], timerIntervalRef := None\<rparr>"
proof (cases "timerIntervalRef s")
  case None
  with assms have "intervals s = []"
    by (cases "intervals s") (auto simp: handles_ok_def)
  with None show ?thesis
    by simp
next
  case (Some h)
  with assms have h: "h \<noteq> 0" "filter (\<lambda>t. fst t \<noteq> h) (intervals s) = []"
    "filter (\<lambda>t. fst t \<noteq> h) (timeouts s) = timeouts s"
    by (auto simp: handles_ok_def filter_empty_conv filter_id_conv)
  show ?thesis
    by (simp add: Some h clearInterval_def clearTimer_def)
qed

declare run_callback.simps [simp del]

lemma handles_ok_run_callback:
  assumes "handles_ok s"
  shows "handles_ok (run_callback segs cb s)"
proof (cases cb)
  case (RevealCb seg i)
  have a: "handles_ok (revealed seg s)"
    using assms by (simp add: handles_ok_def revealed_simps)
  then have "handles_ok ((revealed seg s)
      \<lparr>timeouts := timeouts (revealed seg s) @ [(next_handle (revealed seg s), d, FinalCb)],
        next_handle := Suc (next_handle (revealed seg s)),
        scheduleTimeoutsRef := scheduleTimeoutsRef (revealed seg s) @ [next_handle (revealed seg s)]\<rparr>)" for d
    by (auto simp: handles_ok_def)
  with a show ?thesis
    by (simp add: RevealCb run_callback_reveal Let_def)
next
  case FinalCb
  show ?thesis
    using assms unfolding FinalCb run_callback_final [OF assms] by (simp add: handles_ok_def)
qed

lemma handles_ok_fire_next:
  assumes "handles_ok s" "fire_next segs s = Some s'"
  shows "handles_ok s'"
proof -
  from assms(2) obtain h d cb where
    s': "s' = run_callback segs cb (s\<lparr>timeouts := filter (\<lambda>t. fst t \<noteq> h) (timeouts s), now := max (now s) d\<rparr>)"
    by (auto simp: fire_next_def split: option.splits)
  have "handles_ok (s\<lparr>timeouts := filter (\<lambda>t. fst t \<noteq> h) (timeouts s), now := max (now s) d\<rparr>)"
    using assms(1) by (auto simp: handles_ok_def)
  then show ?thesis
    unfolding s' by (rule handles_ok_run_callback)
qed

lemma handles_ok_initial: "handles_ok initial_page"
  by (simp add: handles_ok_def initial_page_def)

lemma reachable_handles_ok: "reachable env segs s \<Longrightarrow> handles_ok s"
proof (induction rule: reachable.induct)
  case r_init
  show ?case by (rule handles_ok_initial)
next
  case (r_start s)
  then show ?case by (simp add: handles_ok_startExperience)
next
  case (r_stop s)
  then show ?case by (simp add: handles_ok_stopExperience)
next
  case (r_fire s s')
  then show ?case by (simp add: handles_ok_fire_next)
next
  case (r_tick s handle startTime)
  then show ?case by (simp add: handles_ok_def tick_def Let_def)
next
  case (r_wait s d)
  then show ?case by (simp add: handles_ok_def)
next
  case (r_suspend s)
  then show ?case by (simp add: handles_ok_def)
next
  case (r_unmount s)
  then show ?case by (simp add: handles_ok_unmount)
qed

lemma earliest_in: "earliest xs = Some y \<Longrightarrow> y \<in> set xs"
  by (induction xs arbitrary: y) (auto split: option.splits if_splits)

lemma earliest_head:
  assumes "\<forall>y\<in>set xs. fst (snd x) \<le> fst (snd y)"
  shows "earliest (x # xs) = Some x"
proof (cases "earliest xs")
  case None
  then show ?thesis by simp
next
  case (Some y)
  with assms earliest_in [OF Some] show ?thesis by simp
qed

lemma pending_Cons:
  "k < length segs \<Longrightarrow>
   pending segs h t k = (h + k, t + offset segs k, RevealCb (segs ! k) k) # pending segs h t (Suc k)"
  by (simp add: pending_def upt_conv_Cons)

lemma pending_Nil: "length segs \<le> k \<Longrightarrow> pending segs h t k = []"
  by (simp add: pending_def)

lemma pending_later:
  assumes "x \<in> set (pending segs h t (Suc k))"
  shows "t + offset segs k \<le> fst (snd x)" "fst x \<noteq> h + k"
proof -
  from assms obtain i where i: "Suc k \<le> i" "x = (h + i, t + offset segs i, RevealCb (segs ! i) i)"
    by (auto simp: pending_def)
  have "offset segs k \<le> offset segs i"
    using i(1) by (intro offset_mono) simp
  then show "t + offset segs k \<le> fst (snd x)" "fst x \<noteq> h + k"
    using i by simp_all
qed

lemma fire_next_pending:
  assumes "timeouts s = pending segs h t k" "k < length segs"
  shows "fire_next segs s =
     Some (run_callback segs (RevealCb (segs ! k) k)
            (s\<lparr>timeouts := pending segs h t (Suc k), now := max (now s) (t + offset segs k)\<rparr>))"
proof -
  let ?x = "(h + k, t + offset segs k, RevealCb (segs ! k) k)"
  have ts: "timeouts s = ?x # pending segs h t (Suc k)"
    using assms by (simp add: pending_Cons)
  have e: "earliest (timeouts s) = Some ?x"
    unfolding ts by (rule earliest_head) (simp add: pending_later)
  have f: "filter (\<lambda>t. fst t \<noteq> h + k) (timeouts s) = pending segs h t (Suc k)"
    unfolding ts by (simp add: filter_id_conv pending_later)
  show ?thesis
    by (simp add: fire_next_def e f)
qed

lemma fire_next_final:
  assumes "timeouts s = [(h, d, FinalCb)]"
  shows "fire_next segs s = Some (run_callback segs FinalCb (s\<lparr>timeouts := [], now := max (now s) d\<rparr>))"
  by (simp add: fire_next_def assms)

lemma fire_next_None: "timeouts s = [] \<Longrightarrow> fire_next segs s = None"
  by (simp add: fire_next_def)

lemma one_run_empty:
  assumes "timeouts s = []"
  shows "one_run segs s"
proof -
  have "timeouts s = pending segs 0 0 (Suc (length segs))"
    by (simp add: assms pending_Nil)
  then show ?thesis
    unfolding one_run_def by blast
qed

lemma one_run_pending: "0 < k \<Longrightarrow> timeouts s = pending segs h t k \<Longrightarrow> one_run segs s"
  unfolding one_run_def by blast

lemma one_run_final: "timeouts s = [(h, d, FinalCb)] \<Longrightarrow> one_run segs s"
  unfolding one_run_def by blast

lemma one_run_cong: "timeouts s' = timeouts s \<Longrightarrow> one_run segs s \<Longrightarrow> one_run segs s'"
  by (simp add: one_run_def)

lemma one_run_fire_next:
  assumes "handles_ok s" "one_run segs s" "fire_next segs s = Some s'"
  shows "one_run segs s'"
proof -
  from assms(2) consider
    (reveal) h t k where "0 < k" "timeouts s = pending segs h t k" "k < length segs"
    | (none) "timeouts s = []"
    | (final) h d where "timeouts s = [(h, d, FinalCb)]"
    unfolding one_run_def by (metis not_le_imp_less pending_Nil)
  then show ?thesis
  proof cases
    case reveal
    let ?s0 = "s\<lparr>timeouts := pending segs h t (Suc k), now := max (now s) (t + offset segs k)\<rparr>"
    have s': "s' = run_callback segs (RevealCb (segs ! k) k) ?s0"
      using assms(3) fire_next_pending [OF reveal(2,3)] by simp
    show ?thesis
    proof (cases "k = length segs - 1")
      case True
      then have "pending segs h t (Suc k) = []"
        by (simp add: pending_Nil)
      then show ?thesis
        unfolding s' using True
        by (intro one_run_final [where h = "next_handle s" and d = "max (now s) (t + offset segs k) + duration (segs ! k)"])
           (simp add: run_callback_reveal Let_def revealed_simps)
    next
      case False
      then show ?thesis
        unfolding s'
        by (intro one_run_pending [where k = "Suc k" and h = h and t = t])
           (simp_all add: run_callback_reveal Let_def revealed_simps)
    qed
  next
    case none
    with assms(3) show ?thesis by (simp add: fire_next_None)
  next
    case final
    have ok: "handles_ok (s\<lparr>timeouts := [], now := max (now s) d\<rparr>)"
      using assms(1) by (simp add: handles_ok_def)
    have "s' = run_callback segs FinalCb (s\<lparr>timeouts := [], now := max (now s) d\<rparr>)"
      using assms(3) fire_next_final [OF final] by simp
    then show ?thesis
      by (intro one_run_empty) (simp add: run_callback_final [OF ok])
  qed
qed

lemma start_timers:
  assumes "handles_ok s"
  shows "timeouts (snd (startExperience env segs s)) =
           (if fst (startExperience env segs s) = None then pending segs (next_handle s) (now s) 1 else [])"
    and "intervals (snd (startExperience env segs s)) =
           (if fst (startExperience env segs s) = None then [(next_handle s, now s)] else [])"
proof -
  show "timeouts (snd (startExperience env segs s)) =
           (if fst (startExperience env segs s) = None then pending segs (next_handle s) (now s) 1 else [])"
  proof (cases "fst (startExperience env segs s)")
    case None
    then show ?thesis
      by (simp add: start_ok(2) [OF None] scheduled_def acquired_timers [OF assms])
  next
    case (Some e)
    then show ?thesis
      by (simp add: start_failed [OF Some] acquired_timers [OF assms])
  qed
  show "intervals (snd (startExperience env segs s)) =
           (if fst (startExperience env segs s) = None then [(next_handle s, now s)] else [])"
  proof (cases "fst (startExperience env segs s)")
    case None
    then show ?thesis
      by (simp add: start_ok(2) [OF None] scheduled_def acquired_timers [OF assms])
  next
    case (Some e)
    then show ?thesis
      by (simp add: start_failed [OF Some] acquired_timers [OF assms])
  qed
qed

lemma one_run_startExperience:
  assumes "handles_ok s"
  shows "one_run segs (snd (startExperience env segs s))"
proof (cases "fst (startExperience env segs s)")
  case None
  show ?thesis
    by (rule one_run_pending [where k = 1 and h = "next_handle s" and t = "now s"])
       (simp_all add: start_timers [OF assms] None)
next
  case (Some e)
  show ?thesis
    by (rule one_run_empty) (simp add: start_timers [OF assms] Some)
qed

lemma stopExperience_eq:
  "stopExperience env s =
     teardownAudio env
       ((clearSchedule s)\<lparr>status := Idle, activeSegment := None, visibleSegments := [], elapsed := 0\<rparr>)"
  by (simp add: stopExperience_def Let_def)

lemma stop_timers:
  assumes "handles_ok s"
  shows "timeouts (stopExperience env s) = []" "intervals (stopExperience env s) = []"
    "scheduleTimeoutsRef (stopExperience env s) = []" "timerIntervalRef (stopExperience env s) = None"
    "status (stopExperience env s) = Idle" "visibleSegments (stopExperience env s) = []"
    "activeSegment (stopExperience env s) = None" "elapsed (stopExperience env s) = 0"
  unfolding stopExperience_eq
  by (simp_all add: audio_onlyD [OF audio_only_teardownAudio] clearSchedule_clears [OF assms])

lemma unmount_timers:
  assumes "handles_ok s"
  shows "timeouts (unmount env s) = []" "intervals (unmount env s) = []"
    "status (unmount env s) = status s" "visibleSegments (unmount env s) = visibleSegments s"
    "activeSegment (unmount env s) = activeSegment s"
  unfolding unmount_def
  by (simp_all add: audio_onlyD [OF audio_only_teardownAudio] clearSchedule_clears [OF assms])

lemma reachable_one_run: "reachable env segs s \<Longrightarrow> one_run segs s"
proof (induction rule: reachable.induct)
  case r_init
  show ?case by (rule one_run_empty) (simp add: initial_page_def)
next
  case (r_start s)
  then show ?case by (simp add: one_run_startExperience reachable_handles_ok)
next
  case (r_stop s)
  then show ?case by (intro one_run_empty stop_timers reachable_handles_ok)
next
  case (r_fire s s')
  then show ?case using one_run_fire_next reachable_handles_ok by blast
next
  case (r_tick s handle startTime)
  then show ?case by (simp add: one_run_def tick_def Let_def)
next
  case (r_wait s d)
  then show ?case by (simp add: one_run_def)
next
  case (r_suspend s)
  then show ?case by (simp add: one_run_def)
next
  case (r_unmount s)
  then show ?case by (intro one_run_empty unmount_timers reachable_handles_ok)
qed

lemma finished_ok_fire_next:
  assumes "handles_ok s" "one_run segs s" "finished_ok s" "fire_next segs s = Some s'"
  shows "finished_ok s'"
proof -
  from assms(4) have ne: "timeouts s \<noteq> []"
    by (auto simp: fire_next_def)
  with assms(3) have nf: "status s \<noteq> Finished"
    by (auto simp: finished_ok_def)
  from assms(2) ne consider
    (reveal) h t k where "0 < k" "timeouts s = pending segs h t k" "k < length segs"
    | (final) h d where "timeouts s = [(h, d, FinalCb)]"
    unfolding one_run_def by (metis not_le_imp_less pending_Nil)
  then show ?thesis
  proof cases
    case reveal
    have "s' = run_callback segs (RevealCb (segs ! k) k)
                 (s\<lparr>timeouts := pending segs h t (Suc k), now := max (now s) (t + offset segs k)\<rparr>)"
      using assms(4) fire_next_pending [OF reveal(2,3)] by simp
    then have "status s' = status s"
      by (simp add: run_callback_reveal Let_def revealed_simps)
    with nf show ?thesis
      by (simp add: finished_ok_def)
  next
    case final
    have ok: "handles_ok (s\<lparr>timeouts := [], now := max (now s) d\<rparr>)"
      using assms(1) by (simp add: handles_ok_def)
    have "s' = run_callback segs FinalCb (s\<lparr>timeouts := [], now := max (now s) d\<rparr>)"
      using assms(4) fire_next_final [OF final] by simp
    then show ?thesis
      by (simp add: run_callback_final [OF ok] finished_ok_def)
  qed
qed

lemma reachable_finished_ok: "reachable env segs s \<Longrightarrow> finished_ok s"
proof (induction rule: reachable.induct)
  case r_init
  show ?case by (simp add: finished_ok_def initial_page_def)
next
  case (r_start s)
  have "status (snd (startExperience env segs s)) = Playing"
  proof (cases "fst (startExperience env segs s)")
    case None
    then show ?thesis
      by (simp add: start_ok(2) [OF None] scheduled_def acquired_timers [OF reachable_handles_ok [OF r_start.hyps]])
  next
    case (Some e)
    then show ?thesis
      by (simp add: start_failed [OF Some] acquired_timers [OF reachable_handles_ok [OF r_start.hyps]])
  qed
  then show ?case by (simp add: finished_ok_def)
next
  case (r_stop s)
  then show ?case by (simp add: finished_ok_def stop_timers reachable_handles_ok)
next
  case (r_fire s s')
  then show ?case using finished_ok_fire_next reachable_handles_ok reachable_one_run by blast
next
  case (r_tick s handle startTime)
  then show ?case by (simp add: finished_ok_def tick_def Let_def)
next
  case (r_wait s d)
  then show ?case by (simp add: finished_ok_def)
next
  case (r_suspend s)
  then show ?case by (simp add: finished_ok_def)
next
  case (r_unmount s)
  then show ?case by (simp add: finished_ok_def unmount_timers reachable_handles_ok)
qed

lemma start_prep_refs:
  "audioContextRef (start_prep s) = audioContextRef s"
  "masterGainRef (start_prep s) = masterGainRef s"
  "ambientRef (start_prep s) = ambientRef s"
  "graph (start_prep s) = graph s"
  "event_log (start_prep s) = event_log s"
  by (simp_all add: start_prep_def clearSchedule_eq)

lemma ensure_result:
  "fst (ensureAudioContext env s) =
    (if \<not> has_window env then Inl ServerError
     else case audioContextRef s of
       None \<Rightarrow>
         if \<not> (has_AudioContext env \<or> has_webkitAudioContext env) then Inl UnsupportedBackend
         else Inr (running, Some (node_count (graph s)))
     | Some context \<Rightarrow>
         if context = suspended
         then (if resume_rejects env then Inl BackendAcquisitionFailed else Inr (running, masterGainRef s))
         else Inr (context, masterGainRef s))"
  by (cases "audioContextRef s") (simp_all add: ensureAudioContext_def createNode_def Let_def)

lemma ensure_ambientRef: "ambientRef (snd (ensureAudioContext env s)) = ambientRef s"
  by (cases "audioContextRef s") (simp_all add: ensureAudioContext_def createNode_def Let_def)

lemma begin_result:
  "fst (beginAmbientBed m s) = (if ambientRef s = None \<and> m = None then Some TypeError else None)"
  by (cases "ambientRef s"; cases m) (simp_all add: beginAmbientBed_def split_beta Let_def)

lemma start_result:
  "fst (startExperience env segs s) =
    (if \<not> has_window env then Some ServerError
     else case audioContextRef s of
       None \<Rightarrow>
         if \<not> (has_AudioContext env \<or> has_webkitAudioContext env) then Some UnsupportedBackend
         else if segs = [] then Some TypeError else None
     | Some context \<Rightarrow>
         if context = suspended \<and> resume_rejects env then Some BackendAcquisitionFailed
         else if ambientRef s = None \<and> masterGainRef s = None then Some TypeError
         else if segs = [] then Some TypeError else None)"
proof -
  obtain r s1 where e: "ensureAudioContext env (start_prep s) = (r, s1)"
    by (cases "ensureAudioContext env (start_prep s)")
  have r: "r = fst (ensureAudioContext env (start_prep s))"
    and a: "ambientRef s1 = ambientRef s"
    using ensure_ambientRef [of env "start_prep s"] by (simp_all add: e start_prep_refs)
  have start: "fst (startExperience env segs s) =
    (case r of
       Inl e \<Rightarrow> Some e
     | Inr cm \<Rightarrow>
        (case fst (beginAmbientBed (snd cm) s1) of
           Some e \<Rightarrow> Some e
         | None \<Rightarrow> if segs = [] then Some TypeError else None))"
    unfolding startExperience_def Let_def start_prep_def [symmetric] e
    by (cases r; cases "beginAmbientBed (snd (projr r)) s1"; cases segs)
       (auto split: option.splits)
  show ?thesis
    unfolding start r ensure_result start_prep_refs
    by (cases "audioContextRef s") (simp_all add: begin_result a)
qed

lemma start_ok_fields:
  assumes "handles_ok s" "fst (startExperience env segs s) = None"
  shows "next_handle (snd (startExperience env segs s)) = next_handle s + length segs"
    "now (snd (startExperience env segs s)) = now s"
    "status (snd (startExperience env segs s)) = Playing"
    "visibleSegments (snd (startExperience env segs s)) = [segment_id (hd segs)]"
    "activeSegment (snd (startExperience env segs s)) = Some (segment_id (hd segs))"
    "elapsed (snd (startExperience env segs s)) = 0"
    "timerIntervalRef (snd (startExperience env segs s)) = Some (next_handle s)"
    "scheduleTimeoutsRef (snd (startExperience env segs s)) = map fst (pending segs (next_handle s) (now s) 1)"
  by (simp_all add: start_ok(2) [OF assms(2)] scheduled_def acquired_timers [OF assms(1)])

lemma start_failed_fields:
  assumes "handles_ok s" "fst (startExperience env segs s) = Some e"
  shows "next_handle (snd (startExperience env segs s)) = next_handle s"
    "now (snd (startExperience env segs s)) = now s"
    "status (snd (startExperience env segs s)) = Playing"
    "visibleSegments (snd (startExperience env segs s)) = []"
    "activeSegment (snd (startExperience env segs s)) = None"
    "elapsed (snd (startExperience env segs s)) = 0"
    "timerIntervalRef (snd (startExperience env segs s)) = None"
    "scheduleTimeoutsRef (snd (startExperience env segs s)) = []"
  by (simp_all add: start_failed [OF assms(2)] acquired_timers [OF assms(1)])

lemma handles_ok_run: "handles_ok s \<Longrightarrow> handles_ok (run segs k s)"
  by (induction k) (auto split: option.splits intro: handles_ok_fire_next)

lemma run_Suc:
  "run segs (Suc k) s = (case fire_next segs (run segs k s) of None \<Rightarrow> run segs k s | Some s' \<Rightarrow> s')"
  by simp

declare run.simps(2) [simp del]

lemma run_reveals:
  assumes "timeouts s1 = pending segs h t 1" "now s1 = t" "Suc j < length segs"
  shows "timeouts (run segs j s1) = pending segs h t (Suc j) \<and>
         now (run segs j s1) = t + offset segs j \<and>
         next_handle (run segs j s1) = next_handle s1 \<and>
         status (run segs j s1) = status s1"
  using assms(3)
proof (induction j)
  case 0
  then show ?case
    by (simp add: assms offset_def)
next
  case (Suc j)
  let ?s = "run segs j s1"
  from Suc have IH: "timeouts ?s = pending segs h t (Suc j)" "now ?s = t + offset segs j"
    "next_handle ?s = next_handle s1" "status ?s = status s1"
    by simp_all
  have lt: "Suc j < length segs" and nl: "Suc j \<noteq> length segs - 1"
    using Suc.prems by simp_all
  have mono: "offset segs j \<le> offset segs (Suc j)"
    by (rule offset_mono) simp
  have "run segs (Suc j) s1 =
      run_callback segs (RevealCb (segs ! Suc j) (Suc j))
        (?s\<lparr>timeouts := pending segs h t (Suc (Suc j)), now := max (now ?s) (t + offset segs (Suc j))\<rparr>)"
    by (simp add: run_Suc fire_next_pending [OF IH(1) lt])
  then show ?case
    using nl mono by (simp add: run_callback_reveal Let_def revealed_simps IH)
qed

lemma run_last_Suc:
  assumes "timeouts s1 = pending segs h t 1" "now s1 = t" "length segs = Suc (Suc j)"
  shows "timeouts (run segs (Suc j) s1) = [(next_handle s1, t + TOTAL_DURATION segs, FinalCb)] \<and>
         now (run segs (Suc j) s1) = t + offset segs (Suc j) \<and>
         status (run segs (Suc j) s1) = status s1"
proof -
  let ?s = "run segs j s1"
  have lt: "Suc j < length segs"
    using assms(3) by simp
  have IH: "timeouts ?s = pending segs h t (Suc j)" "now ?s = t + offset segs j"
    "next_handle ?s = next_handle s1" "status ?s = status s1"
    using run_reveals [OF assms(1,2) lt] by simp_all
  have mono: "offset segs j \<le> offset segs (Suc j)"
    by (rule offset_mono) simp
  have total: "offset segs (Suc j) + duration (segs ! Suc j) = TOTAL_DURATION segs"
    using offset_Suc [OF lt] offset_all [of segs "Suc (Suc j)"] assms(3) by simp
  have nil: "pending segs h t (Suc (Suc j)) = []"
    by (simp add: pending_Nil assms(3))
  have "run segs (Suc j) s1 =
      run_callback segs (RevealCb (segs ! Suc j) (Suc j))
        (?s\<lparr>timeouts := pending segs h t (Suc (Suc j)), now := max (now ?s) (t + offset segs (Suc j))\<rparr>)"
    by (simp add: run_Suc fire_next_pending [OF IH(1) lt])
  then show ?thesis
    using mono total by (simp add: run_callback_reveal Let_def revealed_simps IH nil assms(3) add.assoc)
qed

lemma run_finish_Suc:
  assumes "timeouts s1 = pending segs h t 1" "now s1 = t" "length segs = Suc (Suc j)" "handles_ok s1"
  shows "status (run segs (Suc (Suc j)) s1) = Finished \<and>
         now (run segs (Suc (Suc j)) s1) = t + TOTAL_DURATION segs \<and>
         timeouts (run segs (Suc (Suc j)) s1) = [] \<and>
         activeSegment (run segs (Suc (Suc j)) s1) = None \<and>
         event_log (run segs (Suc (Suc j)) s1) =
           event_log (run segs (Suc j) s1) @ [(t + TOTAL_DURATION segs, EvFinished)]"
proof -
  let ?s = "run segs (Suc j) s1"
  have l: "timeouts ?s = [(next_handle s1, t + TOTAL_DURATION segs, FinalCb)]"
    "now ?s = t + offset segs (Suc j)"
    using run_last_Suc [OF assms(1-3)] by simp_all
  have le: "offset segs (Suc j) \<le> TOTAL_DURATION segs"
    using offset_mono [of "Suc j" "Suc (Suc j)" segs] offset_all [of segs "Suc (Suc j)"] assms(3) by simp
  have mx: "max (now ?s) (t + TOTAL_DURATION segs) = t + TOTAL_DURATION segs"
    using le by (simp add: l)
  have ok: "handles_ok (?s\<lparr>timeouts := [], now := t + TOTAL_DURATION segs\<rparr>)"
    using handles_ok_run [OF assms(4), of segs "Suc j"] by (simp add: handles_ok_def)
  have "run segs (Suc (Suc j)) s1 =
      run_callback segs FinalCb (?s\<lparr>timeouts := [], now := t + TOTAL_DURATION segs\<rparr>)"
    by (simp add: run_Suc [of segs "Suc j"] fire_next_final [OF l(1)] mx)
  then show ?thesis
    by (simp add: run_callback_final [OF ok])
qed

lemma pending_last_Suc:
  assumes "length segs = Suc (Suc j)"
  shows "last (pending segs h t 1) = (h + Suc j, t + offset segs (Suc j), RevealCb (last segs) (Suc j))"
proof -
  have "[1..<length segs] = [1..<Suc j] @ [Suc j]"
    by (simp add: assms)
  moreover have "segs ! Suc j = last segs"
  proof -
    have "segs \<noteq> []"
      using assms by auto
    then have "last segs = segs ! (length segs - 1)"
      by (rule last_conv_nth)
    then show ?thesis
      by (simp add: assms)
  qed
  ultimately show ?thesis
    by (simp add: pending_def)
qed



lemma fold_Set_from:
  "set (fold (\<lambda>x acc. if x \<in> set acc then acc else acc @ [x]) xs acc) = set acc \<union> set xs"
  by (induction xs arbitrary: acc) auto

lemma set_Set_from: "set (Set_from xs) = set xs"
  by (simp add: Set_from_def fold_Set_from)

lemma last_revealed_append_reveal:
  "last_revealed (l @ (t, EvReveal sid) # map (\<lambda>e. (t', EvEffect e)) es) = Some sid"
proof -
  have "fold (\<lambda>entry r. case snd entry of EvReveal sid \<Rightarrow> Some sid | _ \<Rightarrow> r)
          (map (\<lambda>e. (t', EvEffect e)) es) r = r" for r :: "string option"
    by (induction es) simp_all
  then show ?thesis
    by (simp add: last_revealed_def)
qed

lemma last_revealed_snoc_reveal: "last_revealed (l @ [(t, EvReveal sid)]) = Some sid"
  using last_revealed_append_reveal [of l t sid t "[]"] by simp

lemma teardown_event_log: "event_log (teardownAudio env s) = event_log s"
  by (simp add: teardownAudio_def stopAmbient_def Let_def split: option.splits)

lemma fire_next_visible:
  assumes "fire_next segs s = Some s'"
  shows "set (visibleSegments s) \<subseteq> set (visibleSegments s')"
proof -
  from assms obtain h d cb where
    s': "s' = run_callback segs cb (s\<lparr>timeouts := filter (\<lambda>t. fst t \<noteq> h) (timeouts s), now := max (now s) d\<rparr>)"
    by (auto simp: fire_next_def split: option.splits)
  show ?thesis
  proof (cases cb)
    case (RevealCb seg i)
    then show ?thesis
      unfolding s' by (auto simp: run_callback_reveal Let_def revealed_simps set_Set_from)
  next
    case FinalCb
    then show ?thesis
      unfolding s' by (simp add: run_callback.simps Let_def clearInterval_def clearTimer_def split: option.splits)
  qed
qed

lemma latest_ok_fire_next:
  assumes "fire_next segs s = Some s'" "latest_ok s"
  shows "latest_ok s'"
proof -
  from assms obtain h d cb where
    s': "s' = run_callback segs cb (s\<lparr>timeouts := filter (\<lambda>t. fst t \<noteq> h) (timeouts s), now := max (now s) d\<rparr>)"
    by (auto simp: fire_next_def split: option.splits)
  show ?thesis
  proof (cases cb)
    case (RevealCb seg i)
    then show ?thesis
      unfolding s'
      by (simp add: latest_ok_def run_callback_reveal Let_def revealed_simps last_revealed_append_reveal)
  next
    case FinalCb
    then show ?thesis
      unfolding s'
      by (simp add: latest_ok_def run_callback.simps Let_def clearInterval_def clearTimer_def split: option.splits)
  qed
qed

lemma reachable_latest_ok: "reachable env segs s \<Longrightarrow> latest_ok s"
proof (induction rule: reachable.induct)
  case r_init
  show ?case by (simp add: latest_ok_def initial_page_def)
next
  case (r_start s)
  have ok: "handles_ok s"
    using r_start.hyps by (rule reachable_handles_ok)
  show ?case
  proof (cases "fst (startExperience env segs s)")
    case None
    then show ?thesis
      by (simp add: latest_ok_def start_ok(2) [OF None] scheduled_def last_revealed_snoc_reveal)
  next
    case (Some e)
    then show ?thesis
      by (simp add: latest_ok_def start_failed_fields [OF ok Some])
  qed
next
  case (r_stop s)
  then show ?case by (simp add: latest_ok_def stop_timers reachable_handles_ok)
next
  case (r_fire s s')
  then show ?case using latest_ok_fire_next by blast
next
  case (r_tick s handle startTime)
  then show ?case by (auto simp: latest_ok_def tick_def Let_def)
next
  case (r_wait s d)
  then show ?case by (auto simp: latest_ok_def)
next
  case (r_suspend s)
  then show ?case by (auto simp: latest_ok_def)
next
  case (r_unmount s)
  then show ?case
    by (simp add: latest_ok_def unmount_timers reachable_handles_ok)
       (simp add: unmount_def teardown_event_log clearSchedule_eq)
qed

lemma reachable_run: "reachable env segs s \<Longrightarrow> reachable env segs (run segs k s)"
proof (induction k)
  case 0
  then show ?case by simp
next
  case (Suc k)
  then show ?case
    by (cases "fire_next segs (run segs k s)") (auto simp: run_Suc intro: r_fire)
qed

lemmas graph_ops = createNode_def connect_def disconnect_def node_start_def stop_later_def
  set_onended_def createBuffer_def

lemma play_effect_started:
  "play (nodes (play_effect m e g) n) = Started \<Longrightarrow> play (nodes g n) = Started"
  by (cases e)
     (auto simp: playHeartbeat_def playCreak_def playWhisper_def playGust_def playChime_def
        chime_voice_def graph_ops Let_def split: if_splits)

lemma fold_play_effect_started:
  "play (nodes (fold (play_effect m) es g) n) = Started \<Longrightarrow> play (nodes g n) = Started"
  by (induction es arbitrary: g) (auto dest: play_effect_started)

lemma triggerEffects_started:
  "play (nodes (graph (triggerEffects fx s)) n) = Started \<Longrightarrow> play (nodes (graph s) n) = Started"
  by (auto simp: triggerEffects_eq voices_def split: option.splits dest: fold_play_effect_started)

lemma triggerEffects_ambientRef: "ambientRef (triggerEffects fx s) = ambientRef s"
  by (simp add: triggerEffects_eq)

lemma alive_ok_triggerEffects: "alive_ok s \<Longrightarrow> alive_ok (triggerEffects fx s)"
  unfolding alive_ok_def triggerEffects_ambientRef using triggerEffects_started by blast

lemma ensure_started:
  "play (nodes (graph (snd (ensureAudioContext env s))) n) = Started \<Longrightarrow>
   play (nodes (graph s) n) = Started"
  by (cases "audioContextRef s")
     (auto simp: ensureAudioContext_def graph_ops Let_def split: if_splits)

lemma alive_ok_ensure: "alive_ok s \<Longrightarrow> alive_ok (snd (ensureAudioContext env s))"
  unfolding alive_ok_def ensure_ambientRef using ensure_started by blast

lemma begin_noop: "ambientRef s = Some a \<Longrightarrow> beginAmbientBed m s = (None, s)"
  by (simp add: beginAmbientBed_def)

lemma begin_fresh:
  assumes "ambientRef s = None"
  shows "ambientRef (snd (beginAmbientBed (Some m) s)) =
           Some \<lparr>oscillators = [node_count (graph s), node_count (graph s) + 2],
                 tremolo = Some (node_count (graph s) + 4),
                 noise = Some (node_count (graph s) + 6)\<rparr>"
    and "node_count (graph (snd (beginAmbientBed (Some m) s))) = node_count (graph s) + 9"
    and "play (nodes (graph (snd (beginAmbientBed (Some m) s))) n) = Started \<longleftrightarrow>
           n \<in> {node_count (graph s), node_count (graph s) + 2, node_count (graph s) + 4,
                 node_count (graph s) + 6} \<or>
           n \<notin> {node_count (graph s) + 1, node_count (graph s) + 3, node_count (graph s) + 5,
                 node_count (graph s) + 7, node_count (graph s) + 8} \<and>
           play (nodes (graph s) n) = Started"
  using assms by (simp_all add: beginAmbientBed_def graph_ops Let_def)

lemma begin_failed_started:
  assumes "ambientRef s = None"
  shows "ambientRef (snd (beginAmbientBed None s)) = None"
    and "play (nodes (graph (snd (beginAmbientBed None s))) n) = Started \<Longrightarrow>
         play (nodes (graph s) n) = Started"
  using assms by (auto simp: beginAmbientBed_def graph_ops Let_def split: if_splits)

lemma alive_ok_begin:
  assumes "alive_ok s"
  shows "alive_ok (snd (beginAmbientBed m s))"
proof (cases "ambientRef s")
  case (Some a)
  with assms show ?thesis by (simp add: begin_noop)
next
  case None
  with assms have no: "play (nodes (graph s) n) \<noteq> Started" for n
    by (auto simp: alive_ok_def)
  show ?thesis
  proof (cases m)
    case None
    with \<open>ambientRef s = None\<close> no show ?thesis
      using begin_failed_started [of s] by (auto simp: alive_ok_def)
  next
    case (Some master)
    show ?thesis
      unfolding Some alive_ok_def begin_fresh [OF \<open>ambientRef s = None\<close>]
      using no by (auto simp: owned_def)
  qed
qed

lemma stop_and_disconnect_node:
  "play (nodes (stop_and_disconnect env n g) k) = Started \<longleftrightarrow> k \<noteq> n \<and> play (nodes g k) = Started"
  "outputs (nodes (stop_and_disconnect env n g) k) = (if k = n then [] else outputs (nodes g k))"
  "k \<noteq> n \<Longrightarrow> nodes (stop_and_disconnect env n g) k = nodes g k"
  "node_count (stop_and_disconnect env n g) = node_count g"
  by (cases "play (nodes g n)"; simp add: stop_and_disconnect_def node_stop_def disconnect_def Let_def)+

lemma fold_stop_and_disconnect:
  "play (nodes (fold (stop_and_disconnect env) ns g) k) = Started \<longleftrightarrow>
     k \<notin> set ns \<and> play (nodes g k) = Started"
  "outputs (nodes (fold (stop_and_disconnect env) ns g) k) = (if k \<in> set ns then [] else outputs (nodes g k))"
  "k \<notin> set ns \<Longrightarrow> nodes (fold (stop_and_disconnect env) ns g) k = nodes g k"
  "node_count (fold (stop_and_disconnect env) ns g) = node_count g"
  by (induction ns arbitrary: g; auto simp: stop_and_disconnect_node)+

lemma stopAmbient_owned:
  "graph (stopAmbient env s) =
     (case ambientRef s of None \<Rightarrow> graph s | Some a \<Rightarrow> fold (stop_and_disconnect env) (owned a) (graph s))"
  "ambientRef (stopAmbient env s) = None"
  by (auto simp: stopAmbient_def owned_def Let_def split: option.splits)

lemma alive_ok_stopAmbient: "alive_ok s \<Longrightarrow> alive_ok (stopAmbient env s)"
  by (auto simp: alive_ok_def stopAmbient_owned fold_stop_and_disconnect split: option.splits)

lemma teardown_refs:
  "ambientRef (teardownAudio env s) = None" "masterGainRef (teardownAudio env s) = None"
  "audioContextRef (teardownAudio env s) = None"
  by (simp_all add: teardownAudio_def Let_def stopAmbient_owned split: option.splits)

lemma teardown_started:
  "play (nodes (graph (teardownAudio env s)) n) = play (nodes (graph (stopAmbient env s)) n)"
  by (simp add: teardownAudio_def Let_def disconnect_def split: option.splits)

lemma alive_ok_teardown: "alive_ok s \<Longrightarrow> alive_ok (teardownAudio env s)"
  using alive_ok_stopAmbient [of s env]
  by (simp add: alive_ok_def teardown_refs teardown_started stopAmbient_owned)

lemma alive_ok_cong:
  "graph s' = graph s \<Longrightarrow> ambientRef s' = ambientRef s \<Longrightarrow> alive_ok s \<Longrightarrow> alive_ok s'"
  by (simp add: alive_ok_def)

lemma alive_ok_acquired: "alive_ok s \<Longrightarrow> alive_ok (acquired env segs s)"
proof -
  assume "alive_ok s"
  then have p: "alive_ok (start_prep s)"
    by (rule alive_ok_cong [rotated 2]) (simp_all add: start_prep_refs)
  obtain r s1 where e: "ensureAudioContext env (start_prep s) = (r, s1)"
    by (cases "ensureAudioContext env (start_prep s)")
  have 1: "alive_ok s1"
    using alive_ok_ensure [OF p, of env] by (simp add: e)
  show ?thesis
  proof (cases r)
    case (Inl err)
    then show ?thesis using 1 by (simp add: acquired_def e)
  next
    case (Inr cm)
    obtain c m where cm: "cm = (c, m)" by (cases cm)
    obtain eo s2 where b: "beginAmbientBed m s1 = (eo, s2)"
      by (cases "beginAmbientBed m s1")
    have 2: "alive_ok s2"
      using alive_ok_begin [OF 1, of m] by (simp add: b)
    then have 3: "alive_ok (triggerEffects fx s2)" for fx
      by (rule alive_ok_triggerEffects)
    show ?thesis
      using 2 3 by (simp add: acquired_def e Inr cm b split: option.splits list.splits)
  qed
qed

lemma alive_ok_startExperience:
  assumes "alive_ok s"
  shows "alive_ok (snd (startExperience env segs s))"
proof (cases "fst (startExperience env segs s)")
  case None
  show ?thesis
    unfolding start_ok(2) [OF None]
    by (rule alive_ok_cong [OF _ _ alive_ok_acquired [OF assms]]) (simp_all add: scheduled_def)
next
  case (Some e)
  show ?thesis
    unfolding start_failed [OF Some] using assms by (rule alive_ok_acquired)
qed

lemma alive_ok_run_callback: "alive_ok s \<Longrightarrow> alive_ok (run_callback segs cb s)"
proof (cases cb)
  case (RevealCb seg i)
  assume "alive_ok s"
  then have "alive_ok (revealed seg s)"
    unfolding revealed_def by (intro alive_ok_triggerEffects) (simp add: alive_ok_def)
  then show ?thesis
    by (simp add: RevealCb run_callback_reveal Let_def) (simp add: alive_ok_def)
next
  case FinalCb
  assume "alive_ok s"
  then show ?thesis
    by (simp add: FinalCb run_callback.simps Let_def clearInterval_def clearTimer_def alive_ok_def
        split: option.splits)
qed

lemma reachable_alive_ok: "reachable env segs s \<Longrightarrow> alive_ok s"
proof (induction rule: reachable.induct)
  case r_init
  show ?case by (simp add: alive_ok_def initial_page_def empty_node_def)
next
  case (r_start s)
  then show ?case by (simp add: alive_ok_startExperience)
next
  case (r_stop s)
  have "alive_ok ((clearSchedule s)\<lparr>status := Idle, activeSegment := None, visibleSegments := [], elapsed := 0\<rparr>)"
    using r_stop.IH by (rule alive_ok_cong [rotated 2]) (simp_all add: clearSchedule_eq)
  then show ?case
    unfolding stopExperience_eq by (rule alive_ok_teardown)
next
  case (r_fire s s')
  from r_fire.hyps(2) obtain h d cb where
    s': "s' = run_callback segs cb (s\<lparr>timeouts := filter (\<lambda>t. fst t \<noteq> h) (timeouts s), now := max (now s) d\<rparr>)"
    by (auto simp: fire_next_def split: option.splits)
  have "alive_ok (s\<lparr>timeouts := filter (\<lambda>t. fst t \<noteq> h) (timeouts s), now := max (now s) d\<rparr>)"
    using r_fire.IH by (simp add: alive_ok_def)
  then show ?case
    unfolding s' by (rule alive_ok_run_callback)
next
  case (r_tick s handle startTime)
  then show ?case by (simp add: alive_ok_def tick_def Let_def)
next
  case (r_wait s d)
  then show ?case by (simp add: alive_ok_def)
next
  case (r_suspend s)
  then show ?case by (simp add: alive_ok_def)
next
  case (r_unmount s)
  have "alive_ok (clearSchedule s)"
    using r_unmount.IH by (rule alive_ok_cong [rotated 2]) (simp_all add: clearSchedule_eq)
  then show ?case
    unfolding unmount_def by (rule alive_ok_teardown)
qed

text \<open>The definitions to unfold when a concrete start is evaluated.\<close>

lemmas eval_defs = modern_browser_def STORY_SEGMENTS_def initial_page_def startExperience_def
  clearSchedule_def ensureAudioContext_def beginAmbientBed_def graph_ops triggerEffects_def
  playHeartbeat_def playCreak_def playWhisper_def playGust_def playChime_def chime_voice_def
  startTimer_def setInterval_def setTimeout_def schedule_segment_def enumerate_eq_zip Let_def

lemma play_effect_node_count: "node_count (play_effect m e g) = node_count g + voice_nodes e"
  by (cases e)
     (simp_all add: playHeartbeat_def playCreak_def playWhisper_def playGust_def playChime_def
        chime_voice_def graph_ops Let_def)

lemma fold_play_effect_node_count:
  "node_count (fold (play_effect m) es g) = node_count g + sum_list (map voice_nodes es)"
  by (induction es arbitrary: g) (simp_all add: play_effect_node_count)

lemma ensure_event_log: "event_log (snd (ensureAudioContext env s)) = event_log s"
  by (cases "audioContextRef s") (simp_all add: ensureAudioContext_def graph_ops Let_def)

lemma begin_event_log: "event_log (snd (beginAmbientBed m s)) = event_log s"
  by (cases "ambientRef s"; cases m) (simp_all add: beginAmbientBed_def split_beta Let_def)

lemma begin_refs:
  "audioContextRef (snd (beginAmbientBed m s)) = audioContextRef s"
  "masterGainRef (snd (beginAmbientBed m s)) = masterGainRef s"
  by (cases "ambientRef s"; cases m; simp add: beginAmbientBed_def split_beta Let_def)+

lemma played_cong:
  "audioContextRef s' = audioContextRef s \<Longrightarrow> masterGainRef s' = masterGainRef s \<Longrightarrow>
   played fx s' = played fx s"
  by (simp add: played_def cong: option.case_cong)

text \<open>The state in which \<open>startExperience\<close> calls \<open>triggerEffects\<close>, when it gets there.\<close>

lemma start_ok_decompose:
  assumes "fst (startExperience env segs s) = None"
  obtains c m s1 s2 where
    "ensureAudioContext env (start_prep s) = (Inr (c, m), s1)"
    "beginAmbientBed m s1 = (None, s2)"
    "snd (startExperience env segs s) = scheduled segs (triggerEffects (effects (hd segs)) s2)"
proof -
  obtain r s1 where e: "ensureAudioContext env (start_prep s) = (r, s1)"
    by (cases "ensureAudioContext env (start_prep s)")
  from assms e obtain c m where r: "r = Inr (c, m)"
    by (cases r) (auto simp: startExperience_def start_prep_def Let_def)
  obtain eo s2 where b: "beginAmbientBed m s1 = (eo, s2)"
    by (cases "beginAmbientBed m s1")
  from assms e r b have eo: "eo = None"
    by (cases eo) (auto simp: startExperience_def start_prep_def Let_def)
  from start_ok(1) [OF assms] obtain segment0 rest where segs: "segs = segment0 # rest"
    by (cases segs) auto
  have "acquired env segs s = triggerEffects (effects (hd segs)) s2"
    by (simp add: acquired_def e r b eo segs)
  then have "snd (startExperience env segs s) = scheduled segs (triggerEffects (effects (hd segs)) s2)"
    using start_ok(2) [OF assms] by simp
  with e r b eo show thesis
    by (intro that) simp_all
qed

lemma start_ok_event_log:
  assumes "fst (startExperience env segs s) = None"
  shows "event_log (snd (startExperience env segs s)) =
           event_log s @
           map (\<lambda>e. (now s, EvEffect e)) (played (effects (hd segs)) (snd (startExperience env segs s))) @
           [(now s, EvReveal (segment_id (hd segs)))]"
proof -
  from assms obtain c m s1 s2 where
    e: "ensureAudioContext env (start_prep s) = (Inr (c, m), s1)" and
    b: "beginAmbientBed m s1 = (None, s2)" and
    s': "snd (startExperience env segs s) = scheduled segs (triggerEffects (effects (hd segs)) s2)"
    by (rule start_ok_decompose)
  have "audio_only (start_prep s) s1"
    using audio_only_ensureAudioContext [of "start_prep s" env] by (simp add: e)
  moreover have "audio_only s1 s2"
    using audio_only_beginAmbientBed [of s1 m] by (simp add: b)
  ultimately have "audio_only (start_prep s) s2"
    by (rule audio_only_trans)
  then have n: "now s2 = now s"
    by (simp add: audio_onlyD start_prep_def clearSchedule_eq)
  have l: "event_log s2 = event_log s"
    using ensure_event_log [of env "start_prep s"] begin_event_log [of m s1]
    by (simp add: e b start_prep_refs)
  have p: "played fx (scheduled segs (triggerEffects fx' s2)) = played fx s2" for fx fx'
    by (rule played_cong) (simp_all add: scheduled_def triggerEffects_eq)
  show ?thesis
    unfolding s' p by (simp add: scheduled_def triggerEffects_eq n l)
qed

lemma no_earlier_same_clock:
  assumes "(t, EvReveal sid) \<in> set evs" "\<forall>entry\<in>set evs. fst entry = t"
  shows "no_earlier sid evs"
proof -
  have "(t, EvReveal sid) \<in> set (filter (\<lambda>entry. snd entry = EvReveal sid) evs)"
    using assms(1) by simp
  then have "filter (\<lambda>entry. snd entry = EvReveal sid) evs \<noteq> []"
    by (metis empty_iff empty_set)
  then show ?thesis
    using assms(2) by (auto simp: no_earlier_def reveal_times_def effect_times_def list_all_iff)
qed

lemma callback_entries:
  "drop (length (event_log s)) (event_log (run_callback segs (RevealCb seg i) s)) =
     (now s, EvReveal (segment_id seg)) # map (\<lambda>e. (now s, EvEffect e)) (played (effects seg) s)"
  by (simp add: run_callback_reveal Let_def revealed_simps)

lemma story_start_eval:
  "(let s = snd (startExperience modern_browser STORY_SEGMENTS initial_page)
    in event_log s = [(0, EvEffect Heartbeat), (0, EvReveal ''segment-1'')] \<and>
       audioContextRef s = Some running \<and> masterGainRef s = Some 0 \<and>
       ambientRef s = Some \<lparr>oscillators = [1, 3], tremolo = Some 5, noise = Some 7\<rparr> \<and>
       play (nodes (graph s) 1) = Started \<and> node_count (graph s) = 12)"
  by (simp add: eval_defs)

lemma story_start:
  "event_log (snd (startExperience modern_browser STORY_SEGMENTS initial_page)) =
     [(0, EvEffect Heartbeat), (0, EvReveal ''segment-1'')]"
  "audioContextRef (snd (startExperience modern_browser STORY_SEGMENTS initial_page)) = Some running"
  "masterGainRef (snd (startExperience modern_browser STORY_SEGMENTS initial_page)) = Some 0"
  "ambientRef (snd (startExperience modern_browser STORY_SEGMENTS initial_page)) =
     Some \<lparr>oscillators = [1, 3], tremolo = Some 5, noise = Some 7\<rparr>"
  "play (nodes (graph (snd (startExperience modern_browser STORY_SEGMENTS initial_page))) 1) = Started"
  "node_count (graph (snd (startExperience modern_browser STORY_SEGMENTS initial_page))) = 12"
  using story_start_eval by (simp_all add: Let_def)

lemma story_start_ok: "fst (startExperience modern_browser STORY_SEGMENTS initial_page) = None"
  by (simp add: start_result modern_browser_def initial_page_def STORY_SEGMENTS_def)

lemma stop_status: "status (stopExperience env s) = Idle"
  unfolding stopExperience_eq by (simp add: audio_onlyD [OF audio_only_teardownAudio])

lemma fire_next_refs:
  assumes "fire_next segs s = Some s'"
  shows "audioContextRef s' = audioContextRef s" "masterGainRef s' = masterGainRef s"
    "ambientRef s' = ambientRef s"
proof -
  from assms obtain h d cb where
    s': "s' = run_callback segs cb (s\<lparr>timeouts := filter (\<lambda>t. fst t \<noteq> h) (timeouts s), now := max (now s) d\<rparr>)"
    by (auto simp: fire_next_def split: option.splits)
  show "audioContextRef s' = audioContextRef s" "masterGainRef s' = masterGainRef s"
    "ambientRef s' = ambientRef s"
    unfolding s'
    by (cases cb; simp add: run_callback_reveal Let_def revealed_simps run_callback.simps(2)
          clearInterval_def clearTimer_def split: option.splits)+
qed

lemma run_refs:
  "audioContextRef (run segs k s) = audioContextRef s \<and> masterGainRef (run segs k s) = masterGainRef s \<and>
   ambientRef (run segs k s) = ambientRef s"
proof (induction k)
  case 0
  show ?case by simp
next
  case (Suc k)
  then show ?case
    by (cases "fire_next segs (run segs k s)") (auto simp: run_Suc dest: fire_next_refs)
qed

lemma view_cong:
  "timeouts X = timeouts X' \<Longrightarrow> intervals X = intervals X' \<Longrightarrow>
   scheduleTimeoutsRef X = scheduleTimeoutsRef X' \<Longrightarrow> next_handle X = next_handle X' \<Longrightarrow>
   now X = now X' \<Longrightarrow> status X = status X' \<Longrightarrow> event_log X = event_log X' \<Longrightarrow>
   played fx X = played fx X' \<Longrightarrow>
   controller_view (scheduled segs (triggerEffects fx X)) =
   controller_view (scheduled segs (triggerEffects fx X'))"
  by (simp add: controller_view_def scheduled_def triggerEffects_eq)

lemma cleared_stopExperience: "cleared (stopExperience env s) = {}"
  unfolding stopExperience_eq
  by (simp add: cleared_def audio_onlyD [OF audio_only_teardownAudio] clearSchedule_eq)

lemma start_prep_after_stop:
  "timeouts (start_prep (stopExperience env s)) = timeouts (start_prep s)"
  "intervals (start_prep (stopExperience env s)) = intervals (start_prep s)"
  "scheduleTimeoutsRef (start_prep (stopExperience env s)) = scheduleTimeoutsRef (start_prep s)"
  "next_handle (start_prep (stopExperience env s)) = next_handle (start_prep s)"
  "now (start_prep (stopExperience env s)) = now (start_prep s)"
  "status (start_prep (stopExperience env s)) = status (start_prep s)"
  "event_log (start_prep (stopExperience env s)) = event_log (start_prep s)"
  "graph (start_prep (stopExperience env s)) = graph (stopExperience env s)"
  "audioContextRef (start_prep (stopExperience env s)) = None"
  "masterGainRef (start_prep (stopExperience env s)) = None"
  "ambientRef (start_prep (stopExperience env s)) = None"
proof -
  have c: "clearSchedule (stopExperience env s) = (stopExperience env s)
      \<lparr>timeouts := timeouts (stopExperience env s), intervals := intervals (stopExperience env s),
        scheduleTimeoutsRef := [],
        timerIntervalRef := (if timerIntervalRef (stopExperience env s) = Some 0 then Some 0 else None)\<rparr>"
    by (simp add: clearSchedule_eq [of "stopExperience env s"] cleared_stopExperience)
  show "timeouts (start_prep (stopExperience env s)) = timeouts (start_prep s)"
    "intervals (start_prep (stopExperience env s)) = intervals (start_prep s)"
    "scheduleTimeoutsRef (start_prep (stopExperience env s)) = scheduleTimeoutsRef (start_prep s)"
    "next_handle (start_prep (stopExperience env s)) = next_handle (start_prep s)"
    "now (start_prep (stopExperience env s)) = now (start_prep s)"
    "status (start_prep (stopExperience env s)) = status (start_prep s)"
    "event_log (start_prep (stopExperience env s)) = event_log (start_prep s)"
    "graph (start_prep (stopExperience env s)) = graph (stopExperience env s)"
    "audioContextRef (start_prep (stopExperience env s)) = None"
    "masterGainRef (start_prep (stopExperience env s)) = None"
    "ambientRef (start_prep (stopExperience env s)) = None"
    unfolding start_prep_def c
    by (simp_all add: stopExperience_eq audio_onlyD [OF audio_only_teardownAudio] teardown_event_log
          teardown_refs)
       (simp_all add: clearSchedule_eq)
qed

lemma teardown_node_count: "node_count (graph (teardownAudio env s)) = node_count (graph s)"
  by (simp add: teardownAudio_def Let_def disconnect_def stopAmbient_owned fold_stop_and_disconnect
      split: option.splits)

lemma stop_node_count: "node_count (graph (stopExperience env s)) = node_count (graph s)"
  unfolding stopExperience_eq by (simp add: teardown_node_count clearSchedule_eq)

lemma start_eq:
  assumes "ensureAudioContext env (start_prep s) = (Inr (c, m), s1)"
    "beginAmbientBed m s1 = (None, s2)" "segs \<noteq> []"
  shows "startExperience env segs s =
           (None, scheduled segs (triggerEffects (effects (hd segs)) s2))"
proof -
  obtain segment0 rest where segs: "segs = segment0 # rest"
    using assms(3) by (cases segs) auto
  have "startExperience env segs s =
      (case ensureAudioContext env (start_prep s) of
          (Inl e, s) \<Rightarrow> (Some e, s)
        | (Inr (context, master), s) \<Rightarrow>
           (case beginAmbientBed master s of
              (Some e, s) \<Rightarrow> (Some e, s)
            | (None, s) \<Rightarrow>
               (case segs of
                  [] \<Rightarrow> (Some TypeError, s)
                | segment0 # rest \<Rightarrow>
                    (None, fold (schedule_segment segs) (enumerate 0 segs)
                      ((startTimer (triggerEffects (effects segment0) s))
                         \<lparr>visibleSegments := [segment_id segment0],
                           event_log := event_log (startTimer (triggerEffects (effects segment0) s)) @
                             [(now (startTimer (triggerEffects (effects segment0) s)),
                               EvReveal (segment_id segment0))],
                           activeSegment := Some (segment_id segment0)\<rparr>)))))"
    unfolding startExperience_def start_prep_def by (simp only: Let_def)
  then show ?thesis
    using scheduled_eq [OF segs, of "triggerEffects (effects segment0) s2"]
    by (simp add: assms(1,2) segs)
qed

lemma start_with_session:
  assumes "has_window env" "audioContextRef s = Some running" "masterGainRef s = Some m"
    "ambientRef s = Some a" "segs \<noteq> []"
  shows "startExperience env segs s =
           (None, scheduled segs (triggerEffects (effects (hd segs)) (start_prep s)))"
proof -
  have e: "ensureAudioContext env (start_prep s) = (Inr (running, Some m), start_prep s)"
    using assms by (simp add: ensureAudioContext_def start_prep_refs)
  have b: "beginAmbientBed (Some m) (start_prep s) = (None, start_prep s)"
    by (rule begin_noop [where a = a]) (simp add: start_prep_refs assms)
  from e b assms(5) show ?thesis
    by (rule start_eq)
qed

lemma start_after_stop:
  assumes "has_window env" "has_AudioContext env \<or> has_webkitAudioContext env" "segs \<noteq> []"
  shows "\<exists>X. startExperience env segs (stopExperience env s) =
               (None, scheduled segs (triggerEffects (effects (hd segs)) X)) \<and>
             audio_only (start_prep (stopExperience env s)) X \<and>
             event_log X = event_log s \<and>
             audioContextRef X = Some running \<and>
             masterGainRef X = Some (node_count (graph s)) \<and>
             ambientRef X =
               Some \<lparr>oscillators = [node_count (graph s) + 1, node_count (graph s) + 3],
                     tremolo = Some (node_count (graph s) + 5),
                     noise = Some (node_count (graph s) + 7)\<rparr> \<and>
             node_count (graph X) = node_count (graph s) + 10"
proof -
  let ?p = "start_prep (stopExperience env s)"
  let ?c = "node_count (graph s)"
  let ?s1 = "snd (ensureAudioContext env ?p)"
  have c: "node_count (graph ?p) = ?c"
    by (simp add: start_prep_after_stop(8) stop_node_count)
  have pe: "event_log ?p = event_log s"
    by (rule trans [OF start_prep_after_stop(7) start_prep_refs(5)])
  have e: "ensureAudioContext env ?p = (Inr (running, Some ?c), ?s1)"
    using assms(1,2) c
    by (simp add: ensureAudioContext_def start_prep_after_stop(9,10,11) graph_ops Let_def)
  have s1: "ambientRef ?s1 = None" "node_count (graph ?s1) = ?c + 1"
    "audioContextRef ?s1 = Some running" "masterGainRef ?s1 = Some ?c"
    "event_log ?s1 = event_log s"
    using assms(1,2) c pe
    by (simp_all add: ensureAudioContext_def start_prep_after_stop(9,10,11) graph_ops Let_def)
  let ?s2 = "snd (beginAmbientBed (Some ?c) ?s1)"
  have b: "beginAmbientBed (Some ?c) ?s1 = (None, ?s2)"
    using begin_result [of "Some ?c" ?s1] by (cases "beginAmbientBed (Some ?c) ?s1") simp
  have "startExperience env segs (stopExperience env s) =
           (None, scheduled segs (triggerEffects (effects (hd segs)) ?s2))"
    using e b assms(3) by (rule start_eq)
  moreover have "audio_only ?p ?s2"
    using audio_only_ensureAudioContext audio_only_beginAmbientBed by (rule audio_only_trans)
  moreover have "event_log ?s2 = event_log s" "audioContextRef ?s2 = Some running"
    "masterGainRef ?s2 = Some ?c"
    by (simp_all add: begin_event_log begin_refs s1)
  moreover have "ambientRef ?s2 = Some \<lparr>oscillators = [?c + 1, ?c + 3], tremolo = Some (?c + 5),
                     noise = Some (?c + 7)\<rparr>"
    "node_count (graph ?s2) = ?c + 10"
    by (simp_all add: begin_fresh [OF s1(1)] s1(2))
  ultimately show ?thesis
    by blast
qed

lemma replay_session:
  assumes "has_window env" "audioContextRef s = Some running" "masterGainRef s = Some m"
    "ambientRef s = Some a" "segs \<noteq> []"
  shows "fst (startExperience env segs s) = None \<and>
         audioContextRef (snd (startExperience env segs s)) = Some running \<and>
         masterGainRef (snd (startExperience env segs s)) = Some m \<and>
         ambientRef (snd (startExperience env segs s)) = Some a \<and>
         graph (snd (startExperience env segs s)) =
           fold (play_effect m) (played (effects (hd segs)) s) (graph s) \<and>
         node_count (graph (snd (startExperience env segs s))) =
           node_count (graph s) + sum_list (map voice_nodes (played (effects (hd segs)) s)) \<and>
         (has_AudioContext env \<or> has_webkitAudioContext env \<longrightarrow>
            fst (startExperience env segs (stopExperience env s)) = None \<and>
            controller_view (snd (startExperience env segs s)) =
              controller_view (snd (startExperience env segs (stopExperience env s))) \<and>
            node_count (graph (snd (startExperience env segs (stopExperience env s)))) =
              node_count (graph s) + 10 + sum_list (map voice_nodes (played (effects (hd segs)) s)))"
proof -
  let ?fx = "effects (hd segs)"
  let ?p = "start_prep s"
  have s': "startExperience env segs s = (None, scheduled segs (triggerEffects ?fx ?p))"
    using assms by (rule start_with_session)
  have pl: "played ?fx ?p = played ?fx s"
    by (rule played_cong) (simp_all add: start_prep_refs)
  have g: "graph (snd (startExperience env segs s)) = fold (play_effect m) (played ?fx s) (graph s)"
    by (simp add: s' scheduled_def triggerEffects_eq voices_def pl start_prep_refs assms)
  have direct: "fst (startExperience env segs s) = None"
    "audioContextRef (snd (startExperience env segs s)) = Some running"
    "masterGainRef (snd (startExperience env segs s)) = Some m"
    "ambientRef (snd (startExperience env segs s)) = Some a"
    by (simp_all add: s' scheduled_def triggerEffects_eq start_prep_refs assms)
  have n: "node_count (graph (snd (startExperience env segs s))) =
           node_count (graph s) + sum_list (map voice_nodes (played ?fx s))"
    by (simp add: g fold_play_effect_node_count)
  have reset: "fst (startExperience env segs (stopExperience env s)) = None \<and>
            controller_view (snd (startExperience env segs s)) =
              controller_view (snd (startExperience env segs (stopExperience env s))) \<and>
            node_count (graph (snd (startExperience env segs (stopExperience env s)))) =
              node_count (graph s) + 10 + sum_list (map voice_nodes (played ?fx s))"
    if ctor: "has_AudioContext env \<or> has_webkitAudioContext env"
  proof -
    from start_after_stop [OF assms(1) ctor assms(5), of s] obtain X where
      X: "startExperience env segs (stopExperience env s) = (None, scheduled segs (triggerEffects ?fx X))"
        "audio_only (start_prep (stopExperience env s)) X" "event_log X = event_log s"
        "audioContextRef X = Some running" "masterGainRef X = Some (node_count (graph s))"
        "node_count (graph X) = node_count (graph s) + 10"
      by blast
    have plX: "played ?fx X = played ?fx s"
      by (simp add: played_def X assms cong: option.case_cong)
    have "controller_view (scheduled segs (triggerEffects ?fx ?p)) =
          controller_view (scheduled segs (triggerEffects ?fx X))"
      by (rule view_cong)
         (simp_all add: audio_onlyD [OF X(2)] start_prep_after_stop X(3) start_prep_refs pl plX)
    moreover have "node_count (graph (scheduled segs (triggerEffects ?fx X))) =
        node_count (graph s) + 10 + sum_list (map voice_nodes (played ?fx s))"
      by (simp add: scheduled_def triggerEffects_eq voices_def X plX fold_play_effect_node_count)
    ultimately show ?thesis
      by (simp add: s' X(1))
  qed
  from direct g n reset show ?thesis
    by blast
qed

lemma finished_story:
  "status finished_story = Finished"
  "audioContextRef finished_story = Some running" "masterGainRef finished_story = Some 0"
  "ambientRef finished_story = Some \<lparr>oscillators = [1, 3], tremolo = Some 5, noise = Some 7\<rparr>"
  "played (effects (hd STORY_SEGMENTS)) finished_story = [Heartbeat]"
proof -
  let ?s1 = "snd (startExperience modern_browser STORY_SEGMENTS initial_page)"
  have t: "timeouts ?s1 = pending STORY_SEGMENTS (next_handle initial_page) (now initial_page) 1"
    by (simp add: start_timers [OF handles_ok_initial] story_start_ok)
  have n: "now ?s1 = now initial_page"
    by (rule start_ok_fields [OF handles_ok_initial story_start_ok])
  have len: "length STORY_SEGMENTS = Suc (Suc 6)"
    by (simp add: STORY_SEGMENTS_def)
  show "status finished_story = Finished"
    using run_finish_Suc [OF t n len handles_ok_startExperience [OF handles_ok_initial]]
    by (simp add: finished_story_def eval_nat_numeral)
  show a: "audioContextRef finished_story = Some running" "masterGainRef finished_story = Some 0"
    "ambientRef finished_story = Some \<lparr>oscillators = [1, 3], tremolo = Some 5, noise = Some 7\<rparr>"
    by (simp_all add: finished_story_def run_refs story_start)
  have "effects (hd STORY_SEGMENTS) = Some [Heartbeat]"
    by (simp add: STORY_SEGMENTS_def)
  then show "played (effects (hd STORY_SEGMENTS)) finished_story = [Heartbeat]"
    by (simp add: played_def a)
qed

subsection \<open>Handlers that interleave at their \<open>await\<close>s\<close>


lemma ensure_phases:
  "ensureAudioContext env s =
     (case ensure_enter env s of
        (Rejected e, s1) \<Rightarrow> (Inl e, s1)
      | (Returned context master, s1) \<Rightarrow> (Inr (the context, master), s1)
      | (AwaitsResume, s1) \<Rightarrow>
          (case ensure_resume env s1 of
             (Inl e, s2) \<Rightarrow> (Inl e, s2)
           | (Inr (context, master), s2) \<Rightarrow> (Inr (the context, master), s2)))"
  by (simp add: ensureAudioContext_def ensure_enter_def ensure_resume_def Let_def
      split: option.splits prod.splits)




lemma audio_only_teardown_finish: "audio_only s (teardown_finish s)"
  by (simp add: audio_only_iff teardown_finish_def)





























section \<open>The claims\<close>

text \<open>
  C1 (as amended).  When the browser has no \<open>AudioContext\<close> constructor and the page holds
  no audio context, \<open>startExperience\<close> rejects with \<open>UnsupportedBackend\<close>; it has cleared
  the schedule, creates no audio node, and leaves the status at \<open>Playing\<close> (set before the
  acquisition) with nothing visible or active and \<open>elapsed\<close> at 0; a following
  \<open>stopExperience\<close> brings the status to \<open>Idle\<close>.
\<close>

theorem start_unsupported_backend:
  assumes "has_window env" "\<not> has_AudioContext env" "\<not> has_webkitAudioContext env"
    "audioContextRef s = None"
  shows "startExperience env segs s =
           (Some UnsupportedBackend,
            (clearSchedule s)\<lparr>visibleSegments := [], activeSegment := None, status := Playing,
                               elapsed := 0\<rparr>) \<and>
         status (snd (startExperience env segs s)) = Playing \<and>
         graph (snd (startExperience env segs s)) = graph s \<and>
         status (stopExperience env (snd (startExperience env segs s))) = Idle"
proof -
  have "ensureAudioContext env (start_prep s) = (Inl UnsupportedBackend, start_prep s)"
    using assms by (simp add: ensureAudioContext_def start_prep_refs)
  then have "startExperience env segs s = (Some UnsupportedBackend, start_prep s)"
    unfolding startExperience_def Let_def start_prep_def [symmetric] by simp
  then show ?thesis
    by (simp add: stop_status start_prep_refs) (simp add: start_prep_def)
qed

theorem start_unsupported_backend_witness:
  "startExperience no_audio_browser STORY_SEGMENTS initial_page =
     (Some UnsupportedBackend, initial_page\<lparr>status := Playing\<rparr>) \<and>
   graph (snd (startExperience no_audio_browser STORY_SEGMENTS initial_page)) = graph initial_page \<and>
   status (stopExperience no_audio_browser
             (snd (startExperience no_audio_browser STORY_SEGMENTS initial_page))) = Idle"
proof -
  have "has_window no_audio_browser" "\<not> has_AudioContext no_audio_browser"
    "\<not> has_webkitAudioContext no_audio_browser" "audioContextRef initial_page = None"
    by (simp_all add: no_audio_browser_def modern_browser_def initial_page_def)
  from start_unsupported_backend [OF this, of STORY_SEGMENTS]
  have 1: "startExperience no_audio_browser STORY_SEGMENTS initial_page =
           (Some UnsupportedBackend,
            (clearSchedule initial_page)\<lparr>visibleSegments := [], activeSegment := None,
                                          status := Playing, elapsed := 0\<rparr>)"
    and 2: "graph (snd (startExperience no_audio_browser STORY_SEGMENTS initial_page)) = graph initial_page"
    and 3: "status (stopExperience no_audio_browser
             (snd (startExperience no_audio_browser STORY_SEGMENTS initial_page))) = Idle"
    by blast+
  have "(clearSchedule initial_page)\<lparr>visibleSegments := [], activeSegment := None,
                                     status := Playing, elapsed := 0\<rparr> =
        initial_page\<lparr>status := Playing\<rparr>"
    by (simp add: clearSchedule_def initial_page_def)
  from 1 [unfolded this] 2 3 show ?thesis
    by blast
qed

text \<open>
  C1 as stated fails: from the idle initial page, in a browser without the Web Audio API,
  the call rejects with \<open>UnsupportedBackend\<close> and the status is \<open>Playing\<close>, not \<open>Idle\<close>.
\<close>

theorem start_unsupported_counterexample:
  "status initial_page = Idle \<and>
   fst (startExperience no_audio_browser STORY_SEGMENTS initial_page) = Some UnsupportedBackend \<and>
   status (snd (startExperience no_audio_browser STORY_SEGMENTS initial_page)) = Playing \<and>
   status (snd (startExperience no_audio_browser STORY_SEGMENTS initial_page)) \<noteq> Idle"
proof -
  have "fst (startExperience no_audio_browser STORY_SEGMENTS initial_page) = Some UnsupportedBackend"
    by (simp add: start_result no_audio_browser_def modern_browser_def initial_page_def)
  moreover from this have "status (snd (startExperience no_audio_browser STORY_SEGMENTS initial_page)) = Playing"
    by (rule start_failed_fields [OF handles_ok_initial])
  ultimately show ?thesis
    by (simp add: initial_page_def)
qed

text \<open>
  C2.  The effects of a segment fire no earlier than its reveal.  A reveal callback logs the
  reveal of its segment and the effects it triggers, all with the clock value at which it
  runs; a successful \<open>startExperience\<close> logs the effects of segment 0 and its reveal, all
  with the clock value of the call.  In both cases no effect carries a clock value below
  that of the reveal.  The callbacks a start registers from a state the page can reach are
  those of the segments 1, 2, ... of the timeline, one for each.
\<close>

theorem effects_no_earlier_than_reveal:
  "drop (length (event_log s)) (event_log (run_callback segs (RevealCb seg i) s)) =
     (now s, EvReveal (segment_id seg)) # map (\<lambda>e. (now s, EvEffect e)) (played (effects seg) s) \<and>
   no_earlier (segment_id seg)
     (drop (length (event_log s)) (event_log (run_callback segs (RevealCb seg i) s))) \<and>
   (fst (startExperience env segs s) = None \<longrightarrow>
      drop (length (event_log s)) (event_log (snd (startExperience env segs s))) =
        map (\<lambda>e. (now s, EvEffect e)) (played (effects (hd segs)) (snd (startExperience env segs s))) @
        [(now s, EvReveal (segment_id (hd segs)))] \<and>
      no_earlier (segment_id (hd segs))
        (drop (length (event_log s)) (event_log (snd (startExperience env segs s))))) \<and>
   (reachable env segs s \<and> fst (startExperience env segs s) = None \<longrightarrow>
      map (\<lambda>t. snd (snd t)) (timeouts (snd (startExperience env segs s))) =
        map (\<lambda>i. RevealCb (segs ! i) i) [1..<length segs])"
proof -
  have "no_earlier (segment_id seg)
     (drop (length (event_log s)) (event_log (run_callback segs (RevealCb seg i) s)))"
    unfolding callback_entries by (rule no_earlier_same_clock [of "now s"]) auto
  moreover have "no_earlier (segment_id (hd segs))
        (drop (length (event_log s)) (event_log (snd (startExperience env segs s))))"
    if "fst (startExperience env segs s) = None"
    unfolding start_ok_event_log [OF that]
    by (rule no_earlier_same_clock [of "now s"]) auto
  moreover have "map (\<lambda>t. snd (snd t)) (timeouts (snd (startExperience env segs s))) =
        map (\<lambda>i. RevealCb (segs ! i) i) [1..<length segs]"
    if "reachable env segs s" "fst (startExperience env segs s) = None"
    using start_timers(1) [OF reachable_handles_ok [OF that(1)], of env segs] that(2)
    by (simp add: pending_def comp_def)
  ultimately show ?thesis
    by (simp add: callback_entries start_ok_event_log)
qed

theorem effects_no_earlier_than_reveal_witness:
  "fst (startExperience modern_browser STORY_SEGMENTS initial_page) = None \<and>
   event_log (snd (startExperience modern_browser STORY_SEGMENTS initial_page)) =
     [(0, EvEffect Heartbeat), (0, EvReveal ''segment-1'')] \<and>
   no_earlier ''segment-1'' [(0, EvEffect Heartbeat), (0, EvReveal ''segment-1'')] \<and>
   map (\<lambda>t. snd (snd t)) (timeouts (snd (startExperience modern_browser STORY_SEGMENTS initial_page))) =
     map (\<lambda>i. RevealCb (STORY_SEGMENTS ! i) i) [1, 2, 3, 4, 5, 6, 7] \<and>
   run STORY_SEGMENTS 1 (snd (startExperience modern_browser STORY_SEGMENTS initial_page)) =
     run_callback STORY_SEGMENTS (RevealCb (STORY_SEGMENTS ! 1) 1)
       ((snd (startExperience modern_browser STORY_SEGMENTS initial_page))
          \<lparr>timeouts := pending STORY_SEGMENTS 1 0 2, now := 7500\<rparr>) \<and>
   event_log (run STORY_SEGMENTS 1 (snd (startExperience modern_browser STORY_SEGMENTS initial_page))) =
     [(0, EvEffect Heartbeat), (0, EvReveal ''segment-1''),
      (7500, EvReveal ''segment-2''), (7500, EvEffect Whisper)] \<and>
   no_earlier ''segment-2'' [(7500, EvReveal ''segment-2''), (7500, EvEffect Whisper)]"
proof -
  let ?s1 = "snd (startExperience modern_browser STORY_SEGMENTS initial_page)"
  let ?s0 = "?s1\<lparr>timeouts := pending STORY_SEGMENTS (Suc 0) 0 (Suc (Suc 0)), now := 7500\<rparr>"
  let ?seg = "STORY_SEGMENTS ! Suc 0"
  note start = effects_no_earlier_than_reveal
    [of initial_page STORY_SEGMENTS "hd STORY_SEGMENTS" 0 modern_browser]
  note callback = effects_no_earlier_than_reveal [of ?s0 STORY_SEGMENTS ?seg "Suc 0" modern_browser]
  have i: "event_log initial_page = []" "now initial_page = 0"
    by (simp_all add: initial_page_def)
  have hd: "segment_id (hd STORY_SEGMENTS) = ''segment-1''" "effects (hd STORY_SEGMENTS) = Some [Heartbeat]"
    by (simp_all add: STORY_SEGMENTS_def)
  have len: "[1..<length STORY_SEGMENTS] = [1, 2, 3, 4, 5, 6, 7]"
    by (simp add: STORY_SEGMENTS_def upt_rec)
  have p1: "played (Some [Heartbeat]) ?s1 = [Heartbeat]"
    by (simp add: played_def story_start)
  have st: "drop (length (event_log initial_page)) (event_log ?s1) =
        map (\<lambda>e. (now initial_page, EvEffect e)) (played (effects (hd STORY_SEGMENTS)) ?s1) @
        [(now initial_page, EvReveal (segment_id (hd STORY_SEGMENTS)))] \<and>
      no_earlier (segment_id (hd STORY_SEGMENTS)) (drop (length (event_log initial_page)) (event_log ?s1))"
    using start story_start_ok by blast
  have l1: "event_log ?s1 = [(0, EvEffect Heartbeat), (0, EvReveal ''segment-1'')]"
    using st [THEN conjunct1] by (simp add: i hd p1)
  have "no_earlier ''segment-1'' (event_log ?s1)"
    using st [THEN conjunct2] by (simp add: i hd)
  then have e1: "no_earlier ''segment-1'' [(0, EvEffect Heartbeat), (0, EvReveal ''segment-1'')]"
    by (simp only: l1)
  have c1: "map (\<lambda>t. snd (snd t)) (timeouts ?s1) =
     map (\<lambda>i. RevealCb (STORY_SEGMENTS ! i) i) [1, 2, 3, 4, 5, 6, 7]"
    using start r_init [of modern_browser STORY_SEGMENTS] story_start_ok unfolding len [symmetric] by blast
  have t: "timeouts ?s1 = pending STORY_SEGMENTS 1 0 1"
    using start_timers(1) [OF handles_ok_initial, of modern_browser STORY_SEGMENTS]
    by (simp add: story_start_ok) (simp add: initial_page_def)
  have n: "now ?s1 = 0"
    using start_ok_fields(2) [OF handles_ok_initial story_start_ok] by (simp add: i)
  have o: "offset STORY_SEGMENTS (Suc 0) = 7500" and l: "1 < length STORY_SEGMENTS"
    by (simp_all add: offset_def STORY_SEGMENTS_def)
  have seg: "segment_id ?seg = ''segment-2''" "effects ?seg = Some [Whisper]"
    by (simp_all add: STORY_SEGMENTS_def)
  have "fire_next STORY_SEGMENTS ?s1 = Some (run_callback STORY_SEGMENTS (RevealCb ?seg (Suc 0)) ?s0)"
    using fire_next_pending [OF t l] by (simp add: n o)
  then have r: "run STORY_SEGMENTS (Suc 0) ?s1 = run_callback STORY_SEGMENTS (RevealCb ?seg (Suc 0)) ?s0"
    by (simp add: run_Suc)
  have p2: "played (Some [Whisper]) ?s0 = [Whisper]"
    by (simp add: played_def story_start)
  have d2: "drop (length (event_log ?s0)) (event_log (run_callback STORY_SEGMENTS (RevealCb ?seg (Suc 0)) ?s0)) =
      [(7500, EvReveal ''segment-2''), (7500, EvEffect Whisper)]"
    using callback [THEN conjunct1] by (simp add: seg p2)
  have "no_earlier ''segment-2''
      (drop (length (event_log ?s0)) (event_log (run_callback STORY_SEGMENTS (RevealCb ?seg (Suc 0)) ?s0)))"
    using callback [THEN conjunct2, THEN conjunct1] by (simp add: seg)
  then have e2: "no_earlier ''segment-2'' [(7500, EvReveal ''segment-2''), (7500, EvEffect Whisper)]"
    by (simp only: d2)
  have "event_log (run_callback STORY_SEGMENTS (RevealCb ?seg (Suc 0)) ?s0) =
      event_log ?s0 @ [(7500, EvReveal ''segment-2''), (7500, EvEffect Whisper)]"
    using d2 by (simp add: run_callback_reveal Let_def revealed_simps seg p2)
  then have l2: "event_log (run_callback STORY_SEGMENTS (RevealCb ?seg (Suc 0)) ?s0) =
      [(0, EvEffect Heartbeat), (0, EvReveal ''segment-1''),
       (7500, EvReveal ''segment-2''), (7500, EvEffect Whisper)]"
    by (simp add: l1)
  from story_start_ok l1 e1 c1 r l2 e2 show ?thesis
    by (simp add: numeral_2_eq_2)
qed

text \<open>
  C3.  \<open>TOTAL_DURATION\<close> is the sum of the durations of the timeline.  In a state the page
  can reach, a successful \<open>startExperience\<close> registers the callback of the last segment at
  the start time plus the sum of the durations of all segments before it.  When the loop has
  run the reveal callbacks on time, the clock is at that sum and the one pending timeout is
  the final callback, due the last segment's duration later, which is the start time plus
  \<open>TOTAL_DURATION\<close>; the run reaches \<open>Finished\<close> at exactly that time.  The last segment
  has a deferred callback in any timeline of two segments or more; the timeline of the page,
  \<open>STORY_SEGMENTS\<close>, has eight.
\<close>

theorem finished_after_total_duration:
  assumes "2 \<le> length segs" "reachable env segs s" "fst (startExperience env segs s) = None"
  shows "TOTAL_DURATION segs = sum_list (map duration segs) \<and>
         last (timeouts (snd (startExperience env segs s))) =
           (next_handle s + (length segs - 1), now s + sum_list (map duration (butlast segs)),
            RevealCb (last segs) (length segs - 1)) \<and>
         now (run segs (length segs - 1) (snd (startExperience env segs s))) =
           now s + sum_list (map duration (butlast segs)) \<and>
         timeouts (run segs (length segs - 1) (snd (startExperience env segs s))) =
           [(next_handle s + length segs,
             now s + sum_list (map duration (butlast segs)) + duration (last segs), FinalCb)] \<and>
         now s + sum_list (map duration (butlast segs)) + duration (last segs) =
           now s + TOTAL_DURATION segs \<and>
         finished_at segs (snd (startExperience env segs s)) = Some (now s + TOTAL_DURATION segs)"
proof -
  let ?s1 = "snd (startExperience env segs s)"
  obtain j where j: "length segs = Suc (Suc j)"
    using assms(1) by (metis Suc_le_D numeral_2_eq_2 Suc_le_mono le_Suc_ex add_Suc plus_nat.add_0)
  then have ne: "segs \<noteq> []"
    by auto
  have ok: "handles_ok s"
    using assms(2) by (rule reachable_handles_ok)
  have t: "timeouts ?s1 = pending segs (next_handle s) (now s) 1"
    by (simp add: start_timers [OF ok] assms(3))
  have n: "now ?s1 = now s" and h: "next_handle ?s1 = next_handle s + length segs"
    by (simp_all add: start_ok_fields [OF ok assms(3)])
  have ok1: "handles_ok ?s1"
    using ok by (rule handles_ok_startExperience)
  have o: "offset segs (Suc j) = sum_list (map duration (butlast segs))"
    using offset_butlast [of segs] by (simp add: j)
  have total: "sum_list (map duration (butlast segs)) + duration (last segs) = TOTAL_DURATION segs"
    using ne by (rule duration_butlast)
  have "status (run segs (length segs) ?s1) = Finished"
    "now (run segs (length segs) ?s1) = now s + TOTAL_DURATION segs"
    using run_finish_Suc [OF t n j ok1] by (simp_all add: j)
  then have "finished_at segs ?s1 = Some (now s + TOTAL_DURATION segs)"
    by (simp add: finished_at_def)
  moreover have "timeouts (run segs (length segs - 1) ?s1) =
           [(next_handle s + length segs,
             now s + sum_list (map duration (butlast segs)) + duration (last segs), FinalCb)]"
    "now (run segs (length segs - 1) ?s1) = now s + sum_list (map duration (butlast segs))"
    using run_last_Suc [OF t n j] total by (simp_all add: j h o add.assoc)
  moreover have "last (timeouts ?s1) =
           (next_handle s + (length segs - 1), now s + sum_list (map duration (butlast segs)),
            RevealCb (last segs) (length segs - 1))"
    unfolding t pending_last_Suc [OF j] by (simp add: j o)
  ultimately show ?thesis
    using total by (simp add: TOTAL_DURATION_sum)
qed

theorem finished_after_total_duration_witness:
  "length STORY_SEGMENTS = 8 \<and>
   TOTAL_DURATION STORY_SEGMENTS = 61200 \<and>
   last (timeouts (snd (startExperience modern_browser STORY_SEGMENTS initial_page))) =
     (8, 53000, RevealCb (last STORY_SEGMENTS) 7) \<and>
   duration (last STORY_SEGMENTS) = 8200 \<and>
   timeouts (run STORY_SEGMENTS 7 (snd (startExperience modern_browser STORY_SEGMENTS initial_page))) =
     [(9, 61200, FinalCb)] \<and>
   finished_at STORY_SEGMENTS (snd (startExperience modern_browser STORY_SEGMENTS initial_page)) = Some 61200"
proof -
  have ok: "fst (startExperience modern_browser STORY_SEGMENTS initial_page) = None"
    by (simp add: start_result modern_browser_def initial_page_def STORY_SEGMENTS_def)
  have len: "2 \<le> length STORY_SEGMENTS" "length STORY_SEGMENTS = 8"
    by (simp_all add: STORY_SEGMENTS_def)
  have total: "TOTAL_DURATION STORY_SEGMENTS = 61200"
    by (simp add: TOTAL_DURATION_def STORY_SEGMENTS_def)
  have prior: "sum_list (map duration (butlast STORY_SEGMENTS)) = 53000"
    "duration (last STORY_SEGMENTS) = 8200"
    by (simp_all add: STORY_SEGMENTS_def)
  show ?thesis
    using finished_after_total_duration [OF len(1) r_init ok]
    by (simp add: total len(2) prior initial_page_def)
qed

text \<open>
  C4.  \<open>clearSchedule\<close> cancels every pending deferred callback and the elapsed-time
  ticker together: in every state the page can reach, whatever was scheduled, it leaves no
  active timeout and no active interval and empties both refs; calling it when nothing is
  pending (for instance a second time) changes nothing.
\<close>

theorem clearSchedule_cancels_everything:
  assumes "reachable env segs s"
  shows "timeouts (clearSchedule s) = [] \<and> intervals (clearSchedule s) = [] \<and>
         scheduleTimeoutsRef (clearSchedule s) = [] \<and> timerIntervalRef (clearSchedule s) = None \<and>
         clearSchedule (clearSchedule s) = clearSchedule s"
proof -
  have ok: "handles_ok s"
    using assms by (rule reachable_handles_ok)
  have "handles_ok (clearSchedule s)"
    by (simp add: clearSchedule_clears [OF ok]) (use ok in \<open>simp add: handles_ok_def\<close>)
  then have "clearSchedule (clearSchedule s) = clearSchedule s"
    by (simp add: clearSchedule_clears) (simp add: clearSchedule_clears [OF ok])
  then show ?thesis
    by (simp add: clearSchedule_clears [OF ok])
qed

theorem clearSchedule_cancels_everything_witness:
  "length (timeouts (snd (startExperience modern_browser STORY_SEGMENTS initial_page))) = 7 \<and>
   length (intervals (snd (startExperience modern_browser STORY_SEGMENTS initial_page))) = 1 \<and>
   timeouts (clearSchedule (snd (startExperience modern_browser STORY_SEGMENTS initial_page))) = [] \<and>
   intervals (clearSchedule (snd (startExperience modern_browser STORY_SEGMENTS initial_page))) = [] \<and>
   timeouts (clearSchedule initial_page) = [] \<and> intervals (clearSchedule initial_page) = []"
proof -
  let ?s = "snd (startExperience modern_browser STORY_SEGMENTS initial_page)"
  have ok: "fst (startExperience modern_browser STORY_SEGMENTS initial_page) = None"
    by (simp add: start_result modern_browser_def initial_page_def STORY_SEGMENTS_def)
  have r: "reachable modern_browser STORY_SEGMENTS ?s"
    by (rule r_start [OF r_init])
  have "length (timeouts ?s) = 7 \<and> length (intervals ?s) = 1"
    by (simp add: start_timers [OF handles_ok_initial] ok pending_def) (simp add: STORY_SEGMENTS_def)
  then show ?thesis
    using clearSchedule_cancels_everything [OF r]
      clearSchedule_cancels_everything [OF r_init [of modern_browser STORY_SEGMENTS]]
    by simp
qed

text \<open>
  C5 (as amended).  \<open>startExperience\<close> on a page that holds a running audio context, a
  master gain and an ambient bed (as the finished page does) succeeds and keeps all three:
  the only nodes it adds are the voices of segment 0.  What the controller and the renderer
  see afterwards (visible and active segment, status, elapsed time, timers, clock, event
  log) is what they would see had \<open>stopExperience\<close> run first; only then would the audio
  session be released and built anew (ten more nodes).
\<close>

theorem replay_keeps_audio_session:
  assumes "has_window env" "audioContextRef s = Some running" "masterGainRef s = Some m"
    "ambientRef s = Some a" "segs \<noteq> []"
  shows "fst (startExperience env segs s) = None \<and>
         audioContextRef (snd (startExperience env segs s)) = Some running \<and>
         masterGainRef (snd (startExperience env segs s)) = Some m \<and>
         ambientRef (snd (startExperience env segs s)) = Some a \<and>
         graph (snd (startExperience env segs s)) =
           fold (play_effect m) (played (effects (hd segs)) s) (graph s) \<and>
         node_count (graph (snd (startExperience env segs s))) =
           node_count (graph s) + sum_list (map voice_nodes (played (effects (hd segs)) s)) \<and>
         (has_AudioContext env \<or> has_webkitAudioContext env \<longrightarrow>
            fst (startExperience env segs (stopExperience env s)) = None \<and>
            controller_view (snd (startExperience env segs s)) =
              controller_view (snd (startExperience env segs (stopExperience env s))) \<and>
            node_count (graph (snd (startExperience env segs (stopExperience env s)))) =
              node_count (graph s) + 10 + sum_list (map voice_nodes (played (effects (hd segs)) s)))"
  using assms by (rule replay_session)

theorem replay_keeps_audio_session_witness:
  "status finished_story = Finished \<and>
   fst (startExperience modern_browser STORY_SEGMENTS finished_story) = None \<and>
   ambientRef (snd (startExperience modern_browser STORY_SEGMENTS finished_story)) =
     Some \<lparr>oscillators = [1, 3], tremolo = Some 5, noise = Some 7\<rparr> \<and>
   masterGainRef (snd (startExperience modern_browser STORY_SEGMENTS finished_story)) = Some 0 \<and>
   node_count (graph (snd (startExperience modern_browser STORY_SEGMENTS finished_story))) =
     node_count (graph finished_story) + 2 \<and>
   controller_view (snd (startExperience modern_browser STORY_SEGMENTS finished_story)) =
     controller_view (snd (startExperience modern_browser STORY_SEGMENTS
                             (stopExperience modern_browser finished_story)))"
proof -
  have "has_window modern_browser" "has_AudioContext modern_browser \<or> has_webkitAudioContext modern_browser"
    "STORY_SEGMENTS \<noteq> []"
    by (simp_all add: modern_browser_def STORY_SEGMENTS_def)
  note env = this
  note th = replay_keeps_audio_session [OF env(1) finished_story(2,3,4) env(3)]
  from th have 1: "fst (startExperience modern_browser STORY_SEGMENTS finished_story) = None"
    and 2: "ambientRef (snd (startExperience modern_browser STORY_SEGMENTS finished_story)) =
              Some \<lparr>oscillators = [1, 3], tremolo = Some 5, noise = Some 7\<rparr>"
    and 3: "masterGainRef (snd (startExperience modern_browser STORY_SEGMENTS finished_story)) = Some 0"
    and 4: "node_count (graph (snd (startExperience modern_browser STORY_SEGMENTS finished_story))) =
              node_count (graph finished_story) +
              sum_list (map voice_nodes (played (effects (hd STORY_SEGMENTS)) finished_story))"
    by blast+
  from th env(2) have 5:
    "controller_view (snd (startExperience modern_browser STORY_SEGMENTS finished_story)) =
     controller_view (snd (startExperience modern_browser STORY_SEGMENTS
                             (stopExperience modern_browser finished_story)))"
    by blast
  from 4 have "node_count (graph (snd (startExperience modern_browser STORY_SEGMENTS finished_story))) =
              node_count (graph finished_story) + 2"
    by (simp add: finished_story(5))
  with 1 2 3 5 finished_story(1) show ?thesis
    by blast
qed

text \<open>
  C5 as stated fails: replaying from the finished page keeps the ambient bed and the master
  gain of the first run, where \<open>stopExperience\<close> would have released them, and the result
  differs from that of a reset followed by a start.
\<close>

theorem replay_without_release_counterexample:
  "status finished_story = Finished \<and>
   ambientRef finished_story \<noteq> None \<and>
   ambientRef (snd (startExperience modern_browser STORY_SEGMENTS finished_story)) =
     ambientRef finished_story \<and>
   masterGainRef (snd (startExperience modern_browser STORY_SEGMENTS finished_story)) =
     masterGainRef finished_story \<and>
   ambientRef (stopExperience modern_browser finished_story) = None \<and>
   startExperience modern_browser STORY_SEGMENTS finished_story \<noteq>
     startExperience modern_browser STORY_SEGMENTS (stopExperience modern_browser finished_story)"
proof -
  let ?direct = "startExperience modern_browser STORY_SEGMENTS finished_story"
  let ?reset = "startExperience modern_browser STORY_SEGMENTS (stopExperience modern_browser finished_story)"
  have env: "has_window modern_browser" "has_AudioContext modern_browser \<or> has_webkitAudioContext modern_browser"
    "STORY_SEGMENTS \<noteq> []"
    by (simp_all add: modern_browser_def STORY_SEGMENTS_def)
  note r = replay_session [OF env(1) finished_story(2,3,4) env(3)]
  from r have d: "node_count (graph (snd ?direct)) =
      node_count (graph finished_story) +
      sum_list (map voice_nodes (played (effects (hd STORY_SEGMENTS)) finished_story))"
    and a: "ambientRef (snd ?direct) = Some \<lparr>oscillators = [1, 3], tremolo = Some 5, noise = Some 7\<rparr>"
    and m: "masterGainRef (snd ?direct) = Some 0"
    by blast+
  from r env(2) have e: "node_count (graph (snd ?reset)) =
      node_count (graph finished_story) + 10 +
      sum_list (map voice_nodes (played (effects (hd STORY_SEGMENTS)) finished_story))"
    by blast
  from d e have "node_count (graph (snd ?direct)) \<noteq> node_count (graph (snd ?reset))"
    by simp
  then have ne: "?direct \<noteq> ?reset"
    by auto
  have s: "ambientRef (stopExperience modern_browser finished_story) = None"
    by (simp add: stopExperience_eq teardown_refs)
  have "ambientRef finished_story \<noteq> None" "ambientRef (snd ?direct) = ambientRef finished_story"
    "masterGainRef (snd ?direct) = masterGainRef finished_story"
    by (simp_all only: a m finished_story(3,4) option.distinct not_False_eq_True)
  with ne s finished_story(1) show ?thesis
    by blast
qed

text \<open>
  C6.  \<open>beginAmbientBed\<close> on a page whose ambient bed is running returns at once: the state,
  and with it the number of audio nodes, is unchanged.  In every state the page can reach,
  every node that is started and not stopped belongs to the one instance recorded in
  \<open>ambientRef\<close>, which holds four source nodes; with no instance recorded there is none.
\<close>

theorem beginAmbientBed_at_most_one_instance:
  "(ambientRef s = Some a \<longrightarrow>
      beginAmbientBed m s = (None, s) \<and>
      node_count (graph (snd (beginAmbientBed m s))) = node_count (graph s)) \<and>
   (reachable env segs s \<longrightarrow>
      (\<forall>n. play (nodes (graph s) n) = Started \<longrightarrow> (\<exists>a. ambientRef s = Some a \<and> n \<in> set (owned a))) \<and>
      (\<forall>a. ambientRef s = Some a \<longrightarrow> length (owned a) = 4))"
  using reachable_alive_ok [of env segs s] by (auto simp: begin_noop alive_ok_def)

theorem beginAmbientBed_at_most_one_instance_witness:
  "ambientRef (snd (startExperience modern_browser STORY_SEGMENTS initial_page)) =
     Some \<lparr>oscillators = [1, 3], tremolo = Some 5, noise = Some 7\<rparr> \<and>
   play (nodes (graph (snd (startExperience modern_browser STORY_SEGMENTS initial_page))) 1) = Started \<and>
   1 \<in> set (owned \<lparr>oscillators = [1, 3], tremolo = Some 5, noise = Some 7\<rparr>) \<and>
   length (owned \<lparr>oscillators = [1, 3], tremolo = Some 5, noise = Some 7\<rparr>) = 4 \<and>
   beginAmbientBed (Some 0) (snd (startExperience modern_browser STORY_SEGMENTS initial_page)) =
     (None, snd (startExperience modern_browser STORY_SEGMENTS initial_page))"
proof -
  let ?s1 = "snd (startExperience modern_browser STORY_SEGMENTS initial_page)"
  let ?a = "\<lparr>oscillators = [1, 3], tremolo = Some 5, noise = Some 7\<rparr>"
  have a: "ambientRef ?s1 = Some ?a" and p: "play (nodes (graph ?s1) 1) = Started"
    by (rule story_start)+
  have r: "reachable modern_browser STORY_SEGMENTS ?s1"
    by (rule r_start [OF r_init])
  have "length (owned ?a) = 4" "\<exists>a. ambientRef ?s1 = Some a \<and> 1 \<in> set (owned a)"
    "beginAmbientBed (Some 0) ?s1 = (None, ?s1)"
    using beginAmbientBed_at_most_one_instance [of ?s1 ?a "Some 0" modern_browser STORY_SEGMENTS] a p r
    by blast+
  with a p show ?thesis
    by simp
qed

text \<open>
  C7.  \<open>stopAmbient\<close> on any page with an ambient bed, whatever state its nodes are in and
  whether or not \<open>stop()\<close> throws on them: afterwards none of the nodes the instance holds
  (its oscillators, the tremolo and the noise source) is running, every one of them is
  disconnected, no other node was touched and \<open>ambientRef\<close> is empty; a following
  \<open>beginAmbientBed\<close> succeeds and builds an instance of four new, started nodes.
\<close>

theorem stopAmbient_disposes_every_node:
  assumes "ambientRef s = Some a"
  shows "ambientRef (stopAmbient env s) = None \<and>
         (\<forall>n\<in>set (owned a).
            play (nodes (graph (stopAmbient env s)) n) \<noteq> Started \<and>
            outputs (nodes (graph (stopAmbient env s)) n) = []) \<and>
         (\<forall>n. n \<notin> set (owned a) \<longrightarrow> nodes (graph (stopAmbient env s)) n = nodes (graph s) n) \<and>
         fst (beginAmbientBed (Some m) (stopAmbient env s)) = None \<and>
         (\<exists>a'. ambientRef (snd (beginAmbientBed (Some m) (stopAmbient env s))) = Some a' \<and>
               length (owned a') = 4 \<and>
               (\<forall>n\<in>set (owned a').
                  node_count (graph s) \<le> n \<and>
                  play (nodes (graph (snd (beginAmbientBed (Some m) (stopAmbient env s)))) n) = Started))"
proof -
  let ?s' = "stopAmbient env s"
  have g: "graph ?s' = fold (stop_and_disconnect env) (owned a) (graph s)"
    and r: "ambientRef ?s' = None"
    by (simp_all add: stopAmbient_owned assms)
  have c: "node_count (graph ?s') = node_count (graph s)"
    by (simp add: g fold_stop_and_disconnect)
  have 1: "\<forall>n\<in>set (owned a). play (nodes (graph ?s') n) \<noteq> Started \<and> outputs (nodes (graph ?s') n) = []"
    by (simp add: g fold_stop_and_disconnect)
  have 2: "\<forall>n. n \<notin> set (owned a) \<longrightarrow> nodes (graph ?s') n = nodes (graph s) n"
    by (simp add: g fold_stop_and_disconnect)
  let ?a' = "\<lparr>oscillators = [node_count (graph s), node_count (graph s) + 2],
              tremolo = Some (node_count (graph s) + 4), noise = Some (node_count (graph s) + 6)\<rparr>"
  have 3: "ambientRef (snd (beginAmbientBed (Some m) ?s')) = Some ?a'"
    using begin_fresh(1) [OF r, of m] by (simp add: c)
  have 4: "length (owned ?a') = 4"
    by (simp add: owned_def)
  have 5: "\<forall>n\<in>set (owned ?a'). node_count (graph s) \<le> n \<and>
             play (nodes (graph (snd (beginAmbientBed (Some m) ?s'))) n) = Started"
    unfolding begin_fresh(3) [OF r] by (auto simp: owned_def c)
  have 6: "fst (beginAmbientBed (Some m) ?s') = None"
    by (simp add: begin_result)
  from 3 4 5 have "\<exists>a'. ambientRef (snd (beginAmbientBed (Some m) ?s')) = Some a' \<and>
               length (owned a') = 4 \<and>
               (\<forall>n\<in>set (owned a').
                  node_count (graph s) \<le> n \<and>
                  play (nodes (graph (snd (beginAmbientBed (Some m) ?s'))) n) = Started)"
    by blast
  with r 1 2 6 show ?thesis
    by blast
qed

theorem stopAmbient_disposes_every_node_witness:
  "ambientRef bed_with_stopped_bass = Some \<lparr>oscillators = [1, 3], tremolo = Some 5, noise = Some 7\<rparr> \<and>
   node_stop legacy_browser 1 (graph bed_with_stopped_bass) = Inl InvalidStateError \<and>
   map (\<lambda>n. play (nodes (graph bed_with_stopped_bass) n)) [1, 3, 5, 7] =
     [StopCalled, Started, Started, Started] \<and>
   outputs (nodes (graph bed_with_stopped_bass) 3) = [ToNode 4] \<and>
   ambientRef (stopAmbient legacy_browser bed_with_stopped_bass) = None \<and>
   list_all (\<lambda>n. play (nodes (graph (stopAmbient legacy_browser bed_with_stopped_bass)) n) \<noteq> Started \<and>
                  outputs (nodes (graph (stopAmbient legacy_browser bed_with_stopped_bass)) n) = [])
     [1, 3, 5, 7] \<and>
   fst (beginAmbientBed (Some 0) (stopAmbient legacy_browser bed_with_stopped_bass)) = None"
proof -
  let ?a = "\<lparr>oscillators = [1, 3], tremolo = Some 5, noise = Some 7\<rparr>"
  have a: "ambientRef bed_with_stopped_bass = Some ?a"
    and b: "node_stop legacy_browser 1 (graph bed_with_stopped_bass) = Inl InvalidStateError"
      "map (\<lambda>n. play (nodes (graph bed_with_stopped_bass) n)) [1, 3, 5, 7] =
         [StopCalled, Started, Started, Started]"
      "outputs (nodes (graph bed_with_stopped_bass) 3) = [ToNode 4]"
    by (simp_all add: bed_with_stopped_bass_def legacy_browser_def modern_browser_def
        ensureAudioContext_def beginAmbientBed_def initial_page_def graph_ops node_stop_def Let_def)
  have o: "owned ?a = [1, 3, 5, 7]"
    by (simp add: owned_def)
  let ?s' = "stopAmbient legacy_browser bed_with_stopped_bass"
  have th: "ambientRef ?s' = None"
    "\<forall>n\<in>set (owned ?a). play (nodes (graph ?s') n) \<noteq> Started \<and> outputs (nodes (graph ?s') n) = []"
    "fst (beginAmbientBed (Some 0) ?s') = None"
    using stopAmbient_disposes_every_node [OF a, of legacy_browser 0] by blast+
  have "list_all (\<lambda>n. play (nodes (graph ?s') n) \<noteq> Started \<and> outputs (nodes (graph ?s') n) = [])
          (owned ?a)"
    using th(2) by (simp add: list_all_iff)
  then have "list_all (\<lambda>n. play (nodes (graph ?s') n) \<noteq> Started \<and> outputs (nodes (graph ?s') n) = [])
          [1, 3, 5, 7]"
    unfolding o .
  with a b th(1,3) show ?thesis
    by simp
qed

text \<open>
  C8.  In every state the page can reach: a timer callback never removes a segment from
  \<open>visibleSegments\<close> (nor does the ticker); while the status is \<open>Playing\<close> and something
  is visible, the active segment is the one revealed most recently; and once the status is
  \<open>Finished\<close> there is no active segment.
\<close>

theorem visibility_monotonic_active_latest:
  assumes "reachable env segs s"
  shows "(\<forall>s'. fire_next segs s = Some s' \<longrightarrow> set (visibleSegments s) \<subseteq> set (visibleSegments s')) \<and>
         (\<forall>startTime. visibleSegments (tick segs startTime s) = visibleSegments s) \<and>
         (status s = Playing \<and> visibleSegments s \<noteq> [] \<longrightarrow>
            (\<exists>sid. activeSegment s = Some sid \<and> last_revealed (event_log s) = Some sid)) \<and>
         (status s = Finished \<longrightarrow> activeSegment s = None)"
proof -
  have "latest_ok s" "finished_ok s"
    using assms by (rule reachable_latest_ok, rule reachable_finished_ok)
  then show ?thesis
    using fire_next_visible [of segs s]
    by (auto simp: latest_ok_def finished_ok_def tick_def Let_def)
qed

theorem visibility_monotonic_active_latest_witness:
  "status (snd (startExperience modern_browser STORY_SEGMENTS initial_page)) = Playing \<and>
   visibleSegments (snd (startExperience modern_browser STORY_SEGMENTS initial_page)) = [''segment-1''] \<and>
   activeSegment (snd (startExperience modern_browser STORY_SEGMENTS initial_page)) = Some ''segment-1'' \<and>
   last_revealed (event_log (snd (startExperience modern_browser STORY_SEGMENTS initial_page))) =
     Some ''segment-1'' \<and>
   fire_next STORY_SEGMENTS (snd (startExperience modern_browser STORY_SEGMENTS initial_page)) =
     Some (run STORY_SEGMENTS 1 (snd (startExperience modern_browser STORY_SEGMENTS initial_page))) \<and>
   set (visibleSegments (snd (startExperience modern_browser STORY_SEGMENTS initial_page))) \<subseteq>
     set (visibleSegments (run STORY_SEGMENTS 1 (snd (startExperience modern_browser STORY_SEGMENTS initial_page)))) \<and>
   status (run STORY_SEGMENTS 8 (snd (startExperience modern_browser STORY_SEGMENTS initial_page))) = Finished \<and>
   activeSegment (run STORY_SEGMENTS 8 (snd (startExperience modern_browser STORY_SEGMENTS initial_page))) = None"
proof -
  let ?s1 = "snd (startExperience modern_browser STORY_SEGMENTS initial_page)"
  have ok: "fst (startExperience modern_browser STORY_SEGMENTS initial_page) = None"
    by (simp add: start_result modern_browser_def initial_page_def STORY_SEGMENTS_def)
  have r1: "reachable modern_browser STORY_SEGMENTS ?s1"
    by (rule r_start [OF r_init])
  have rF: "reachable modern_browser STORY_SEGMENTS (run STORY_SEGMENTS 8 ?s1)"
    using r1 by (rule reachable_run)
  have len: "length STORY_SEGMENTS = Suc (Suc 6)"
    by (simp add: STORY_SEGMENTS_def)
  have hd: "segment_id (hd STORY_SEGMENTS) = ''segment-1''"
    by (simp add: STORY_SEGMENTS_def)
  have f: "status ?s1 = Playing" "visibleSegments ?s1 = [''segment-1'']"
    "activeSegment ?s1 = Some ''segment-1''"
    using start_ok_fields [OF handles_ok_initial ok] by (simp_all add: hd)
  have t: "timeouts ?s1 = pending STORY_SEGMENTS (next_handle initial_page) (now initial_page) 1"
    by (simp add: start_timers [OF handles_ok_initial] ok)
  have n: "now ?s1 = now initial_page"
    by (rule start_ok_fields [OF handles_ok_initial ok])
  have "fire_next STORY_SEGMENTS ?s1 \<noteq> None"
    using fire_next_pending [OF t] by (simp add: len)
  then have fire: "fire_next STORY_SEGMENTS ?s1 = Some (run STORY_SEGMENTS 1 ?s1)"
    by (auto simp: run_Suc)
  have fin: "status (run STORY_SEGMENTS 8 ?s1) = Finished"
    using run_finish_Suc [OF t n len handles_ok_startExperience [OF handles_ok_initial]]
    by (simp add: eval_nat_numeral)
  show ?thesis
    using visibility_monotonic_active_latest [OF r1] visibility_monotonic_active_latest [OF rF]
    by (simp add: f fire fin)
qed

text \<open>
  C9.  \<open>triggerEffects\<close> leaves the page as it is (no node is created, nothing is thrown)
  when there is no audio context, when there is no master gain, or when the effect list is
  undefined or empty.
\<close>

theorem triggerEffects_noop_without_backend:
  assumes "audioContextRef s = None \<or> masterGainRef s = None \<or> fx = None \<or> fx = Some []"
  shows "triggerEffects fx s = s"
  using assms by (auto simp: triggerEffects_def split: option.splits)

theorem triggerEffects_noop_without_backend_witness:
  "triggerEffects (Some [Heartbeat, Chime]) initial_page = initial_page \<and>
   audioContextRef (stopExperience modern_browser (snd (startExperience modern_browser STORY_SEGMENTS initial_page))) = None \<and>
   triggerEffects (Some [Creak])
     (stopExperience modern_browser (snd (startExperience modern_browser STORY_SEGMENTS initial_page))) =
     stopExperience modern_browser (snd (startExperience modern_browser STORY_SEGMENTS initial_page)) \<and>
   triggerEffects None (snd (startExperience modern_browser STORY_SEGMENTS initial_page)) =
     snd (startExperience modern_browser STORY_SEGMENTS initial_page) \<and>
   triggerEffects (Some []) (snd (startExperience modern_browser STORY_SEGMENTS initial_page)) =
     snd (startExperience modern_browser STORY_SEGMENTS initial_page)"
proof -
  let ?s1 = "snd (startExperience modern_browser STORY_SEGMENTS initial_page)"
  have 1: "audioContextRef initial_page = None"
    by (simp add: initial_page_def)
  have 2: "audioContextRef (stopExperience modern_browser ?s1) = None"
    by (simp add: stopExperience_eq teardown_refs)
  show ?thesis
    using triggerEffects_noop_without_backend [of initial_page "Some [Heartbeat, Chime]"]
      triggerEffects_noop_without_backend [of "stopExperience modern_browser ?s1" "Some [Creak]"]
      triggerEffects_noop_without_backend [of ?s1 None]
      triggerEffects_noop_without_backend [of ?s1 "Some []"]
    by (simp add: 1 2)
qed




end
